theory Spec2Isabelle
  imports Complex_Main "HOL-Library.Word"
begin

unbundle bit_operations_syntax

section \<open>Audio wire codec (helper functions of the audio component)\<close>

text \<open>
  Sample arrays. A \<^verbatim>\<open>Float32Array\<close> is a list of reals: the codec only multiplies
  and divides by the power of two 32768 and truncates, and each of these steps is exact
  on the values a float can hold, so the real numbers carry the same results (the float
  values NaN and the infinities have no counterpart here; \<^verbatim>\<open>ToInt16\<close> maps them to 0).
  A \<^verbatim>\<open>Uint8Array\<close> is a list of 8-bit words, an \<^verbatim>\<open>Int16Array\<close> a list of
  16-bit words read with \<open>sint\<close>. A binary string (every code unit below 256) is
  identified with the list of its bytes.
\<close>

type_synonym float32array = "real list"
type_synonym uint8array = "8 word list"
type_synonym int16array = "16 word list"

datatype js_error_kind =
  RangeError | NotSupportedError | InvalidCharacterError | InvalidAccessError
  | IndexSizeError | InvalidStateError

subsection \<open>Storing a number into an \<^verbatim>\<open>Int16Array\<close>\<close>

definition js_truncate :: "real \<Rightarrow> int" where
  "js_truncate x = (if 0 \<le> x then \<lfloor>x\<rfloor> else \<lceil>x\<rceil>)"

text \<open>The element store of a 16-bit typed array: truncate towards zero, then reduce
  modulo \<open>2 ^ 16\<close> (the word), read back as two's complement.\<close>

definition ToInt16 :: "real \<Rightarrow> 16 word" where
  "ToInt16 x = word_of_int (js_truncate x)"

text \<open>The byte view of the same buffer, little-endian.\<close>

definition int16_bytes :: "16 word \<Rightarrow> uint8array" where
  "int16_bytes w = [ucast w, ucast (drop_bit 8 w)]"

definition int16_of_bytes :: "8 word \<Rightarrow> 8 word \<Rightarrow> 16 word" where
  "int16_of_bytes lo hi = ucast lo OR push_bit 8 (ucast hi)"

definition uint8_view :: "int16array \<Rightarrow> uint8array" where
  "uint8_view ws = concat (map int16_bytes ws)"

text \<open>\<^verbatim>\<open>new Int16Array(data.buffer)\<close>: a \<^verbatim>\<open>RangeError\<close> when the byte length is odd.\<close>

fun int16_pairs :: "uint8array \<Rightarrow> int16array" where
  "int16_pairs (lo # hi # rest) = int16_of_bytes lo hi # int16_pairs rest"
| "int16_pairs _ = []"

definition int16_view :: "uint8array \<Rightarrow> js_error_kind + int16array" where
  "int16_view bs = (if odd (length bs) then Inl RangeError else Inr (int16_pairs bs))"

subsection \<open>Base64: the platform's \<^verbatim>\<open>btoa\<close> and \<^verbatim>\<open>atob\<close>\<close>

definition b64_alphabet :: string where
  "b64_alphabet =
     ''ABCDEFGHIJKLMNOPQRSTUVWXYZabcdefghijklmnopqrstuvwxyz0123456789+/''"

definition b64_char :: "nat \<Rightarrow> char" where
  "b64_char n = b64_alphabet ! n"

fun index_of :: "'a \<Rightarrow> 'a list \<Rightarrow> nat option" where
  "index_of x [] = None"
| "index_of x (y # ys) =
     (if x = y then Some 0 else map_option Suc (index_of x ys))"

definition b64_index :: "char \<Rightarrow> nat option" where
  "b64_index c = index_of c b64_alphabet"

text \<open>Six-bit groups of a byte sequence, three bytes to four groups; a tail of one
  byte gives two groups and a tail of two bytes gives three.\<close>

fun b64_sextets :: "uint8array \<Rightarrow> nat list" where
  "b64_sextets (a # b # c # rest) =
     [unat a div 4, (unat a mod 4) * 16 + unat b div 16,
      (unat b mod 16) * 4 + unat c div 64, unat c mod 64] @ b64_sextets rest"
| "b64_sextets [a, b] =
     [unat a div 4, (unat a mod 4) * 16 + unat b div 16, (unat b mod 16) * 4]"
| "b64_sextets [a] = [unat a div 4, (unat a mod 4) * 16]"
| "b64_sextets [] = []"

definition btoa :: "uint8array \<Rightarrow> string" where
  "btoa bs = map b64_char (b64_sextets bs)
             @ replicate ((3 - length bs mod 3) mod 3) (CHR ''='')"

text \<open>\<^verbatim>\<open>atob\<close> is the forgiving decoder: ASCII whitespace is dropped, one or two
  closing \<open>=\<close> are dropped when the length is a multiple of four, a remaining length of
  1 modulo 4 or a character outside the alphabet raises, and the bits left over at the
  end are discarded.\<close>

definition ascii_whitespace :: "char \<Rightarrow> bool" where
  "ascii_whitespace c = (c \<in> set [CHR 0x09, CHR 0x0A, CHR 0x0C, CHR 0x0D, CHR 0x20])"

definition strip_padding :: "string \<Rightarrow> string" where
  "strip_padding s =
     (if length s mod 4 = 0 \<and> s \<noteq> [] \<and> last s = CHR ''='' then
        (let s1 = butlast s in
         if s1 \<noteq> [] \<and> last s1 = CHR ''='' then butlast s1 else s1)
      else s)"

fun sextets_option :: "string \<Rightarrow> nat list option" where
  "sextets_option [] = Some []"
| "sextets_option (c # cs) =
     (case b64_index c of
        None \<Rightarrow> None
      | Some n \<Rightarrow> map_option (\<lambda>ns. n # ns) (sextets_option cs))"

fun b64_bytes :: "nat list \<Rightarrow> uint8array" where
  "b64_bytes (p # q # r # t # rest) =
     [of_nat (p * 4 + q div 16), of_nat ((q mod 16) * 16 + r div 4),
      of_nat ((r mod 4) * 64 + t)] @ b64_bytes rest"
| "b64_bytes [p, q, r] = [of_nat (p * 4 + q div 16), of_nat ((q mod 16) * 16 + r div 4)]"
| "b64_bytes [p, q] = [of_nat (p * 4 + q div 16)]"
| "b64_bytes _ = []"

definition atob :: "string \<Rightarrow> js_error_kind + uint8array" where
  "atob s =
     (let s1 = strip_padding (filter (\<lambda>c. \<not> ascii_whitespace c) s) in
      if length s1 mod 4 = 1 then Inl InvalidCharacterError
      else case sextets_option s1 of
             None \<Rightarrow> Inl InvalidCharacterError
           | Some ns \<Rightarrow> Inr (b64_bytes ns))"

subsection \<open>\<^verbatim>\<open>createBlob\<close>, \<^verbatim>\<open>decode\<close>, \<^verbatim>\<open>decodeAudioData\<close>\<close>

record GenAIBlob =
  data :: string
  mimeType :: string

text \<open>\<^verbatim>\<open>createBlob\<close>: the first loop stores \<open>data[i] * 32768\<close> into the
  \<^verbatim>\<open>Int16Array\<close>; the second spells the bytes as a binary string; the MIME
  descriptor is the literal of the source.\<close>

definition float_to_int16 :: "float32array \<Rightarrow> int16array" where
  "float_to_int16 samples = map (\<lambda>v. ToInt16 (v * 32768)) samples"

definition createBlob :: "float32array \<Rightarrow> GenAIBlob" where
  "createBlob samples =
     \<lparr> data = btoa (uint8_view (float_to_int16 samples)),
       mimeType = ''audio/pcm;rate=16000'' \<rparr>"

definition decode :: "string \<Rightarrow> js_error_kind + uint8array" where
  "decode base64 = atob base64"

text \<open>An \<^verbatim>\<open>AudioBuffer\<close>: its channels (each of \<open>frames\<close> samples) and its rate;
  \<open>duration\<close> is the length over the rate.\<close>

record AudioBuffer =
  channels :: "float32array list"
  frames :: nat
  buf_rate :: nat

definition duration :: "AudioBuffer \<Rightarrow> real" where
  "duration b = real (frames b) / real (buf_rate b)"

text \<open>\<^verbatim>\<open>decodeAudioData\<close>. The frame count is the number of 16-bit samples over
  the channel count; \<^verbatim>\<open>createBuffer\<close> refuses a channel count, a length or a
  rate of zero (which rates above zero it accepts is the platform's choice).
  Channel \<open>ch\<close> takes the samples at \<open>i * numChannels + ch\<close>, each divided by 32768.
  (With a frame count that is not whole the buffer has the whole part and the writes
  beyond it are dropped by the typed array.)\<close>

definition channel_data :: "int16array \<Rightarrow> nat \<Rightarrow> nat \<Rightarrow> nat \<Rightarrow> float32array" where
  "channel_data dataInt16 frameCount numChannels ch =
     map (\<lambda>i. real_of_int (sint (dataInt16 ! (i * numChannels + ch))) / 32768)
         [0 ..< frameCount]"

definition decodeAudioData ::
    "uint8array \<Rightarrow> nat \<Rightarrow> nat \<Rightarrow> js_error_kind + AudioBuffer" where
  "decodeAudioData bytes sampleRate numChannels =
     (case int16_view bytes of
        Inl e \<Rightarrow> Inl e
      | Inr dataInt16 \<Rightarrow>
          if numChannels = 0 \<or> length dataInt16 div numChannels = 0 \<or> sampleRate = 0
          then Inl NotSupportedError
          else
            (let frameCount = length dataInt16 div numChannels in
             Inr \<lparr> channels =
                     map (channel_data dataInt16 frameCount numChannels) [0 ..< numChannels],
                   frames = frameCount,
                   buf_rate = sampleRate \<rparr>))"

text \<open>The receive path applied to what the send path produced: \<^verbatim>\<open>decode\<close> the
  frame's text, then \<^verbatim>\<open>decodeAudioData\<close> with one channel.\<close>

definition decode_frame :: "GenAIBlob \<Rightarrow> nat \<Rightarrow> js_error_kind + AudioBuffer" where
  "decode_frame blob sampleRate =
     (case decode (data blob) of
        Inl e \<Rightarrow> Inl e
      | Inr bytes \<Rightarrow> decodeAudioData bytes sampleRate 1)"


section \<open>Error formatting (\<^verbatim>\<open>formatGeminiError\<close>)\<close>

text \<open>An error object as the formatter sees it: its \<^verbatim>\<open>name\<close>, its
  \<^verbatim>\<open>message\<close> (absent on plain events) and what \<^verbatim>\<open>toString()\<close> gives.
  Strings are lists of 8-bit characters; \<^verbatim>\<open>toLowerCase\<close> is modelled on the ASCII
  letters, which is all the patterns of the formatter contain.\<close>

record js_error =
  err_name :: string
  err_message :: "string option"
  err_toString :: string

definition new_Error :: "string \<Rightarrow> js_error" where
  "new_Error msg =
     \<lparr> err_name = ''Error'', err_message = Some msg,
       err_toString = (if msg = [] then ''Error'' else ''Error: '' @ msg) \<rparr>"

definition lower_char :: "char \<Rightarrow> char" where
  "lower_char c =
     (let n = (of_char c :: nat) in if 65 \<le> n \<and> n \<le> 90 then char_of (n + 32) else c)"

definition toLowerCase :: "string \<Rightarrow> string" where
  "toLowerCase str = map lower_char str"

fun starts_with :: "string \<Rightarrow> string \<Rightarrow> bool" where
  "starts_with [] str = True"
| "starts_with (p # ps) [] = False"
| "starts_with (p # ps) (c # cs) = (p = c \<and> starts_with ps cs)"

fun str_includes :: "string \<Rightarrow> string \<Rightarrow> bool" where
  "str_includes [] pat = (pat = [])"
| "str_includes (c # cs) pat = (starts_with pat (c # cs) \<or> str_includes cs pat)"

text \<open>\<open>a || b\<close> on an optional string: an absent or empty left operand is falsy.\<close>

definition or_else :: "string option \<Rightarrow> string \<Rightarrow> string" where
  "or_else a b = (case a of None \<Rightarrow> b | Some v \<Rightarrow> if v = [] then b else v)"

definition formatGeminiError :: "js_error \<Rightarrow> string" where
  "formatGeminiError e =
     (let msg = toLowerCase (or_else (err_message e) (err_toString e)) in
      if str_includes msg ''google maps tool is not enabled''
        then ''Google Maps Grounding is not enabled for this model.''
      else if str_includes msg ''400''
        then ''Invalid request (400). Please check your prompt or parameters.''
      else if str_includes msg ''401''
        then ''Invalid API Key (401). Please update your key in the Login/Settings page.''
      else if str_includes msg ''403''
        then ''Access Denied (403). Your API key may lack permissions, be expired, or the model is not available in your region.''
      else if str_includes msg ''404''
        then ''Model not found (404). This feature may not be available in your region or with your current API key.''
      else if str_includes msg ''429''
        then ''Rate limit exceeded (429). You are sending requests too fast. Please wait a moment.''
      else if str_includes msg ''500'' \<or> str_includes msg ''503''
        then ''Google Service Error (5xx). The AI service is temporarily unavailable. Please try again later.''
      else if str_includes msg ''safety''
        then ''Response blocked by safety filters. Please try modifying your prompt.''
      else if str_includes msg ''fetch failed'' \<or> str_includes msg ''networkerror''
        then ''Network connection failed. Please check your internet.''
      else or_else (err_message e) ''An unexpected error occurred.'')"

section \<open>The live session of the audio component\<close>

subsection \<open>State\<close>

record AudioSettings =
  inputSampleRate :: nat
  outputSampleRate :: nat
  bufferSize :: nat

datatype setting_key = InputSampleRate | OutputSampleRate | BufferSize

datatype connection_state = DISCONNECTED | CONNECTING | CONNECTED | ERROR

datatype context_state = Suspended | Running | Closed

record AudioContext =
  ctx_state :: context_state
  sampleRate :: nat
  currentTime :: real

datatype track_state = Live | Ended

type_synonym MediaStream = "track_state list"

text \<open>The promise returned by \<^verbatim>\<open>ai.live.connect\<close> with the callbacks registered on
  it by \<^verbatim>\<open>then\<close>, and the variables its four callbacks close over.\<close>

datatype promise_state = Pending | Fulfilled | Rejected

datatype then_callback = SendRealtimeInput GenAIBlob | CloseSession

record Session =
  promise :: promise_state
  conn_closed :: bool
  waiting :: "then_callback list"
  sess_inputCtx :: nat
  sess_outputCtx :: nat
  sess_stream :: nat
  sess_settings :: AudioSettings

record ScriptProcessor =
  proc_session :: nat
  proc_connected :: bool

text \<open>A call of \<^verbatim>\<open>startLiveSession\<close> suspended at \<^verbatim>\<open>await getUserMedia\<close>.\<close>

record StartAttempt =
  att_inputCtx :: nat
  att_outputCtx :: nat
  att_settings :: AudioSettings
  att_waiting :: bool

text \<open>A buffer source that has been started: its context, its buffer and the
  \<open>when\<close> of \<^verbatim>\<open>source.start(when)\<close>.\<close>

record BufferSource =
  src_ctx :: nat
  src_buffer :: AudioBuffer
  src_when :: real

datatype wire_event = Opened nat | Sent nat GenAIBlob | CloseCalled nat

datatype console_level = LOG | WARN | ERR

type_synonym console_entry = "console_level \<times> string"

text \<open>The component: its React state, its refs, and the objects of the platform the
  refs and closures point to. Objects live in lists and are named by their position;
  a ref holds a position or is null.\<close>

record live_state =
  error :: "string option"
  isOutputPaused :: bool
  connectionState :: connection_state
  liveActive :: bool
  settings :: AudioSettings
  audioContextRef :: "nat option"
  inputContextRef :: "nat option"
  sessionPromiseRef :: "nat option"
  sourcesRef :: "nat set"
  nextStartTimeRef :: real
  scriptProcessorRef :: "nat option"
  mediaStreamRef :: "nat option"
  contexts :: "AudioContext list"
  streams :: "MediaStream list"
  sessions :: "Session list"
  processors :: "ScriptProcessor list"
  attempts :: "StartAttempt list"
  scheduled :: "BufferSource list"
  console :: "console_entry list"
  wire :: "wire_event list"

definition initial_state :: live_state where
  "initial_state =
     \<lparr> error = None, isOutputPaused = False, connectionState = DISCONNECTED,
       liveActive = False,
       settings = \<lparr> inputSampleRate = 16000, outputSampleRate = 24000, bufferSize = 4096 \<rparr>,
       audioContextRef = None, inputContextRef = None, sessionPromiseRef = None,
       sourcesRef = {}, nextStartTimeRef = 0, scriptProcessorRef = None,
       mediaStreamRef = None,
       contexts = [], streams = [], sessions = [], processors = [], attempts = [],
       scheduled = [], console = [], wire = [] \<rparr>"

definition lookup :: "'a list \<Rightarrow> nat \<Rightarrow> 'a option" where
  "lookup xs i = (if i < length xs then Some (xs ! i) else None)"

definition console_write :: "console_level \<Rightarrow> string \<Rightarrow> live_state \<Rightarrow> live_state" where
  "console_write lvl line s = s\<lparr> console := console s @ [(lvl, line)] \<rparr>"


subsection \<open>Inbound messages\<close>

record Part =
  inlineData :: "GenAIBlob option"

record Content =
  parts :: "Part list option"

record LiveServerContent =
  modelTurn :: "Content option"

record LiveServerMessage =
  serverContent :: "LiveServerContent option"

text \<open>\<^verbatim>\<open>msg.serverContent?.modelTurn?.parts?.[0]?.inlineData?.data\<close>\<close>

definition inline_audio :: "LiveServerMessage \<Rightarrow> string option" where
  "inline_audio msg =
     (case serverContent msg of
        None \<Rightarrow> None
      | Some sc \<Rightarrow>
          (case modelTurn sc of
             None \<Rightarrow> None
           | Some mt \<Rightarrow>
               (case parts mt of
                  None \<Rightarrow> None
                | Some [] \<Rightarrow> None
                | Some (p # _) \<Rightarrow>
                    (case inlineData p of
                       None \<Rightarrow> None
                     | Some blob \<Rightarrow> Some (data blob)))))"

subsection \<open>Settings\<close>

definition handleSettingChange :: "setting_key \<Rightarrow> nat \<Rightarrow> live_state \<Rightarrow> live_state" where
  "handleSettingChange key v s =
     s\<lparr> settings :=
          (case key of
             InputSampleRate \<Rightarrow> (settings s)\<lparr> inputSampleRate := v \<rparr>
           | OutputSampleRate \<Rightarrow> (settings s)\<lparr> outputSampleRate := v \<rparr>
           | BufferSize \<Rightarrow> (settings s)\<lparr> bufferSize := v \<rparr>) \<rparr>"

subsection \<open>Callbacks registered on the session promise\<close>

text \<open>\<^verbatim>\<open>session.close()\<close> of the client library: it closes the connection, and on
  a connection that is already closed it returns normally and changes nothing (closing a
  closed socket is a no-op). The result is a sum so that the \<^verbatim>\<open>try\<close> around the call
  keeps its \<^verbatim>\<open>catch\<close> in the model; no state makes this call raise.\<close>

definition session_close :: "nat \<Rightarrow> live_state \<Rightarrow> js_error_kind + live_state" where
  "session_close sid s =
     (case lookup (sessions s) sid of
        None \<Rightarrow> Inr s
      | Some se \<Rightarrow>
          if conn_closed se then Inr s
          else Inr (s\<lparr> sessions := (sessions s)[sid := se\<lparr> conn_closed := True \<rparr>],
                       wire := wire s @ [CloseCalled sid] \<rparr>))"

text \<open>The two callbacks the component registers: the send of \<^verbatim>\<open>onaudioprocess\<close>, and
  the \<^verbatim>\<open>try { session.close() } catch (e) { console.warn(...) }\<close> of
  \<^verbatim>\<open>stopLiveSession\<close>.\<close>

definition run_callback :: "nat \<Rightarrow> then_callback \<Rightarrow> live_state \<Rightarrow> live_state" where
  "run_callback sid cb s =
     (case cb of
        SendRealtimeInput pcmBlob \<Rightarrow> s\<lparr> wire := wire s @ [Sent sid pcmBlob] \<rparr>
      | CloseSession \<Rightarrow>
          (case session_close sid s of
             Inl e \<Rightarrow> console_write WARN ''Session already closed'' s
           | Inr s' \<Rightarrow> s'))"

text \<open>\<^verbatim>\<open>sessionPromise.then(cb)\<close>: run once the promise is fulfilled, kept until then,
  never run on a rejected promise. On a fulfilled promise the browser runs the callback
  right after the handler that registered it; here it runs at the registration, which
  gives the same state, since no handler reads afterwards what the two callbacks write.\<close>

definition session_then :: "nat \<Rightarrow> then_callback \<Rightarrow> live_state \<Rightarrow> live_state" where
  "session_then sid cb s =
     (case lookup (sessions s) sid of
        None \<Rightarrow> s
      | Some se \<Rightarrow>
          (case promise se of
             Fulfilled \<Rightarrow> run_callback sid cb s
           | Pending \<Rightarrow> s\<lparr> sessions := (sessions s)[sid := se\<lparr> waiting := waiting se @ [cb] \<rparr>] \<rparr>
           | Rejected \<Rightarrow> s))"

fun run_callbacks :: "nat \<Rightarrow> then_callback list \<Rightarrow> live_state \<Rightarrow> live_state" where
  "run_callbacks sid [] s = s"
| "run_callbacks sid (cb # cbs) s = run_callbacks sid cbs (run_callback sid cb s)"

definition connect_fulfilled :: "nat \<Rightarrow> live_state \<Rightarrow> live_state" where
  "connect_fulfilled sid s =
     (case lookup (sessions s) sid of
        None \<Rightarrow> s
      | Some se \<Rightarrow>
          if promise se \<noteq> Pending then s
          else run_callbacks sid (waiting se)
                 (s\<lparr> sessions := (sessions s)[sid := se\<lparr> promise := Fulfilled, waiting := [] \<rparr>] \<rparr>))"

definition connect_rejected :: "nat \<Rightarrow> live_state \<Rightarrow> live_state" where
  "connect_rejected sid s =
     (case lookup (sessions s) sid of
        None \<Rightarrow> s
      | Some se \<Rightarrow>
          if promise se \<noteq> Pending then s
          else s\<lparr> sessions := (sessions s)[sid := se\<lparr> promise := Rejected, waiting := [] \<rparr>] \<rparr>)"

subsection \<open>\<^verbatim>\<open>stopLiveSession\<close>\<close>

definition disconnect_processor :: "nat \<Rightarrow> live_state \<Rightarrow> live_state" where
  "disconnect_processor p s =
     (case lookup (processors s) p of
        None \<Rightarrow> s
      | Some pr \<Rightarrow> s\<lparr> processors := (processors s)[p := pr\<lparr> proc_connected := False \<rparr>] \<rparr>)"

definition stop_tracks :: "nat \<Rightarrow> live_state \<Rightarrow> live_state" where
  "stop_tracks m s =
     (case lookup (streams s) m of
        None \<Rightarrow> s
      | Some tracks \<Rightarrow> s\<lparr> streams := (streams s)[m := map (\<lambda>t. Ended) tracks] \<rparr>)"

text \<open>\<^verbatim>\<open>ctx.close()\<close>; on a closed context it is an \<^verbatim>\<open>InvalidStateError\<close>.\<close>

definition close_context :: "nat \<Rightarrow> live_state \<Rightarrow> js_error_kind + live_state" where
  "close_context c s =
     (case lookup (contexts s) c of
        None \<Rightarrow> Inr s
      | Some cx \<Rightarrow>
          if ctx_state cx = Closed then Inl InvalidStateError
          else Inr (s\<lparr> contexts := (contexts s)[c := cx\<lparr> ctx_state := Closed \<rparr>] \<rparr>))"

text \<open>\<^verbatim>\<open>if (ref.current && ref.current.state !== 'closed') { try { ref.current.close() }
  catch (e) { console.warn(label, e) } }\<close>\<close>

definition close_if_open :: "nat option \<Rightarrow> string \<Rightarrow> live_state \<Rightarrow> live_state" where
  "close_if_open r label s =
     (case r of
        None \<Rightarrow> s
      | Some c \<Rightarrow>
          (case lookup (contexts s) c of
             None \<Rightarrow> s
           | Some cx \<Rightarrow>
               if ctx_state cx = Closed then s
               else (case close_context c s of
                       Inl e \<Rightarrow> console_write WARN label s
                     | Inr s' \<Rightarrow> s')))"

text \<open>The statements of \<^verbatim>\<open>stopLiveSession\<close>, one by one:
  \<^verbatim>\<open>sessionPromiseRef.current?.then(session => { try { session.close() } catch ... })\<close>,
  \<^verbatim>\<open>try { scriptProcessorRef.current?.disconnect() } catch (e) {}\<close> (a disconnect
  without arguments does not raise),
  \<^verbatim>\<open>mediaStreamRef.current?.getTracks().forEach(t => t.stop())\<close>, the two guarded
  closes, and the two state setters.\<close>

definition stop_session :: "live_state \<Rightarrow> live_state" where
  "stop_session s =
     (case sessionPromiseRef s of
        None \<Rightarrow> s
      | Some sid \<Rightarrow> session_then sid CloseSession s)"

definition stop_processor :: "live_state \<Rightarrow> live_state" where
  "stop_processor s =
     (case scriptProcessorRef s of
        None \<Rightarrow> s
      | Some p \<Rightarrow> disconnect_processor p s)"

definition stop_stream :: "live_state \<Rightarrow> live_state" where
  "stop_stream s =
     (case mediaStreamRef s of
        None \<Rightarrow> s
      | Some m \<Rightarrow> stop_tracks m s)"

definition stopLiveSession :: "live_state \<Rightarrow> live_state" where
  "stopLiveSession s =
     (let s1 = stop_session s;
          s2 = stop_processor s1;
          s3 = stop_stream s2;
          s4 = close_if_open (inputContextRef s3) ''InputCtx close error'' s3;
          s5 = close_if_open (audioContextRef s4) ''AudioCtx close error'' s4
      in s5\<lparr> liveActive := False, connectionState := DISCONNECTED \<rparr>)"

subsection \<open>\<^verbatim>\<open>startLiveSession\<close>\<close>

definition new_AudioContext :: "nat \<Rightarrow> AudioContext" where
  "new_AudioContext rate = \<lparr> ctx_state = Running, sampleRate = rate, currentTime = 0 \<rparr>"

text \<open>Up to \<^verbatim>\<open>await navigator.mediaDevices.getUserMedia\<close>: the three state
  setters, the two contexts and their refs (the constructors are taken to succeed; the
  client object and the analysers carry nothing the session logic reads).\<close>

definition startLiveSession :: "live_state \<Rightarrow> live_state" where
  "startLiveSession s =
     (let inputCtx = length (contexts s);
          outputCtx = Suc (length (contexts s))
      in s\<lparr> error := None, isOutputPaused := False, connectionState := CONNECTING,
             contexts := contexts s @ [new_AudioContext (inputSampleRate (settings s)),
                                       new_AudioContext (outputSampleRate (settings s))],
             inputContextRef := Some inputCtx,
             audioContextRef := Some outputCtx,
             attempts := attempts s @ [\<lparr> att_inputCtx = inputCtx, att_outputCtx = outputCtx,
                                         att_settings = settings s, att_waiting = True \<rparr>] \<rparr>)"

text \<open>The continuation when the microphone is granted: the stream goes into its ref and
  \<^verbatim>\<open>ai.live.connect\<close> is called; its promise goes into \<^verbatim>\<open>sessionPromiseRef\<close>.\<close>

definition getUserMedia_resolved :: "nat \<Rightarrow> live_state \<Rightarrow> live_state" where
  "getUserMedia_resolved a s =
     (case lookup (attempts s) a of
        None \<Rightarrow> s
      | Some att \<Rightarrow>
          if \<not> att_waiting att then s
          else
            (let stream = length (streams s);
                 sessionPromise = length (sessions s)
             in s\<lparr> attempts := (attempts s)[a := att\<lparr> att_waiting := False \<rparr>],
                    streams := streams s @ [[Live]],
                    mediaStreamRef := Some stream,
                    sessions := sessions s @
                      [\<lparr> promise = Pending, conn_closed = False, waiting = [],
                         sess_inputCtx = att_inputCtx att, sess_outputCtx = att_outputCtx att,
                         sess_stream = stream, sess_settings = att_settings att \<rparr>],
                    sessionPromiseRef := Some sessionPromise \<rparr>))"

text \<open>The continuation when the microphone is refused with error \<open>e\<close>: the inner
  \<^verbatim>\<open>catch\<close> sets the state and throws a new error chosen by \<open>e.name\<close>; the outer
  \<^verbatim>\<open>catch\<close> logs it, formats it and sets the state again.\<close>

definition mic_denied_message :: string where
  "mic_denied_message =
     ''Microphone access denied. Please allow microphone permissions in your browser settings.''"

definition mic_not_found_message :: string where
  "mic_not_found_message = ''No microphone found. Please check your audio input device.''"

definition mic_other_message :: string where
  "mic_other_message = ''Could not access audio device. Please check your system settings.''"

definition microphone_error :: "js_error \<Rightarrow> js_error" where
  "microphone_error e =
     (if err_name e = ''NotAllowedError'' \<or> err_name e = ''PermissionDeniedError'' then
        new_Error mic_denied_message
      else if err_name e = ''NotFoundError'' \<or> err_name e = ''DevicesNotFoundError'' then
        new_Error mic_not_found_message
      else
        new_Error mic_other_message)"

definition getUserMedia_rejected :: "nat \<Rightarrow> js_error \<Rightarrow> live_state \<Rightarrow> live_state" where
  "getUserMedia_rejected a e s =
     (case lookup (attempts s) a of
        None \<Rightarrow> s
      | Some att \<Rightarrow>
          if \<not> att_waiting att then s
          else
            (let s1 = s\<lparr> attempts := (attempts s)[a := att\<lparr> att_waiting := False \<rparr>],
                         connectionState := ERROR \<rparr>;
                 thrown = microphone_error e;
                 s2 = console_write ERR ''Failed to start live session'' s1
             in s2\<lparr> error := Some (formatGeminiError thrown), connectionState := ERROR \<rparr>))"


subsection \<open>The callbacks given to \<^verbatim>\<open>ai.live.connect\<close>\<close>

definition valid_bufferSize :: "nat \<Rightarrow> bool" where
  "valid_bufferSize n = (n \<in> set [0, 256, 512, 1024, 2048, 4096, 8192, 16384])"

text \<open>\<^verbatim>\<open>onopen\<close> of the session \<open>sid\<close>. This is the only place where a script
  processor is created and given its \<^verbatim>\<open>onaudioprocess\<close> handler;
  \<^verbatim>\<open>createScriptProcessor\<close> raises on a buffer size that is not one of the allowed
  powers of two. (The stream of this model has an audio track, so
  \<^verbatim>\<open>createMediaStreamSource\<close> does not raise.)\<close>

definition onopen :: "nat \<Rightarrow> live_state \<Rightarrow> js_error_kind option \<times> live_state" where
  "onopen sid s =
     (case lookup (sessions s) sid of
        None \<Rightarrow> (None, s)
      | Some se \<Rightarrow>
          (let s1 = (console_write LOG ''Live Session Open'' s)
                      \<lparr> liveActive := True, connectionState := CONNECTED \<rparr>
           in if \<not> valid_bufferSize (bufferSize (sess_settings se))
              then (Some IndexSizeError, s1)
              else
                (let processor = length (processors s1)
                 in (None,
                     s1\<lparr> processors := processors s1 @
                            [\<lparr> proc_session = sid, proc_connected = True \<rparr>],
                          scriptProcessorRef := Some processor \<rparr>))))"

text \<open>\<^verbatim>\<open>processor.onaudioprocess\<close> of the processor \<open>p\<close>: encode the chunk and hand
  it to the session the handler closes over.\<close>

definition onaudioprocess :: "nat \<Rightarrow> float32array \<Rightarrow> live_state \<Rightarrow> live_state" where
  "onaudioprocess p inputData s =
     (case lookup (processors s) p of
        None \<Rightarrow> s
      | Some pr \<Rightarrow>
          (let pcmBlob = createBlob inputData
           in session_then (proc_session pr) (SendRealtimeInput pcmBlob) s))"

text \<open>\<^verbatim>\<open>onmessage\<close> of the session \<open>sid\<close>. The handler is \<^verbatim>\<open>async\<close>: an
  exception leaves the state as it is at that point and rejects the handler's promise;
  the first component of the result is that exception. \<^verbatim>\<open>source.connect(outputNode)\<close>
  raises when the context in the ref is not the one the session's output node belongs
  to.\<close>

definition onmessage ::
    "nat \<Rightarrow> LiveServerMessage \<Rightarrow> live_state \<Rightarrow> js_error_kind option \<times> live_state" where
  "onmessage sid msg s =
     (case lookup (sessions s) sid of
        None \<Rightarrow> (None, s)
      | Some se \<Rightarrow>
          (case inline_audio msg of
             None \<Rightarrow> (None, s)
           | Some b64 \<Rightarrow>
               if b64 = [] then (None, s)
               else
                 (case audioContextRef s of
                    None \<Rightarrow> (None, s)
                  | Some c \<Rightarrow>
                      (case lookup (contexts s) c of
                         None \<Rightarrow> (None, s)
                       | Some ctx \<Rightarrow>
                           if ctx_state ctx = Closed then (None, s)
                           else
                             (let s1 = s\<lparr> nextStartTimeRef :=
                                            max (nextStartTimeRef s) (currentTime ctx) \<rparr>
                              in case decode b64 of
                                   Inl e \<Rightarrow> (Some e, s1)
                                 | Inr bytes \<Rightarrow>
                                     (case decodeAudioData bytes
                                             (outputSampleRate (sess_settings se)) 1 of
                                        Inl e \<Rightarrow> (Some e, s1)
                                      | Inr audioBuf \<Rightarrow>
                                          if sess_outputCtx se \<noteq> c
                                          then (Some InvalidAccessError, s1)
                                          else
                                            (let source = length (scheduled s1)
                                             in (None,
                                                 s1\<lparr> scheduled := scheduled s1 @
                                                        [\<lparr> src_ctx = c, src_buffer = audioBuf,
                                                           src_when = nextStartTimeRef s1 \<rparr>],
                                                      nextStartTimeRef :=
                                                        nextStartTimeRef s1 + duration audioBuf,
                                                      sourcesRef :=
                                                        insert source (sourcesRef s1) \<rparr>))))))))"

text \<open>The listener for \<^verbatim>\<open>ended\<close> that \<^verbatim>\<open>onmessage\<close> puts on each source.\<close>

definition source_ended :: "nat \<Rightarrow> live_state \<Rightarrow> live_state" where
  "source_ended source s = s\<lparr> sourcesRef := sourcesRef s - {source} \<rparr>"

definition onclose :: "nat \<Rightarrow> live_state \<Rightarrow> live_state" where
  "onclose sid s =
     (console_write LOG ''Live Session Closed'' s)
       \<lparr> liveActive := False, connectionState := DISCONNECTED \<rparr>"

definition onerror :: "nat \<Rightarrow> js_error \<Rightarrow> live_state \<Rightarrow> live_state" where
  "onerror sid e s =
     (let s1 = console_write ERR (err_toString e) s;
          msg = formatGeminiError e;
          s2 = s1\<lparr> error := Some (''Live Session Error: '' @ msg) \<rparr>;
          s3 = s2\<lparr> connectionState := ERROR \<rparr>
      in stopLiveSession s3)"

subsection \<open>Pause and resume\<close>

definition set_context_state ::
    "nat \<Rightarrow> context_state \<Rightarrow> context_state \<Rightarrow> live_state \<Rightarrow> live_state" where
  "set_context_state c from to s =
     (case lookup (contexts s) c of
        None \<Rightarrow> s
      | Some cx \<Rightarrow>
          if ctx_state cx = from
          then s\<lparr> contexts := (contexts s)[c := cx\<lparr> ctx_state := to \<rparr>] \<rparr>
          else s)"

definition togglePauseOutput :: "live_state \<Rightarrow> live_state" where
  "togglePauseOutput s =
     (case audioContextRef s of
        None \<Rightarrow> s
      | Some c \<Rightarrow>
          (let s1 = (if isOutputPaused s then set_context_state c Suspended Running s
                     else set_context_state c Running Suspended s)
           in s1\<lparr> isOutputPaused := \<not> isOutputPaused s \<rparr>))"

subsection \<open>Events of the user and of the platform\<close>

text \<open>The output clock is the platform's: \<open>clock_reads c t\<close> is the moment at which
  \<^verbatim>\<open>currentTime\<close> of context \<open>c\<close> reads \<open>t\<close>.\<close>

definition clock_reads :: "nat \<Rightarrow> real \<Rightarrow> live_state \<Rightarrow> live_state" where
  "clock_reads c t s =
     (case lookup (contexts s) c of
        None \<Rightarrow> s
      | Some cx \<Rightarrow> s\<lparr> contexts := (contexts s)[c := cx\<lparr> currentTime := t \<rparr>] \<rparr>)"

definition transport_open :: "nat \<Rightarrow> live_state \<Rightarrow> live_state" where
  "transport_open sid s =
     (if sid < length (sessions s)
      then snd (onopen sid (s\<lparr> wire := wire s @ [Opened sid] \<rparr>))
      else s)"

definition transport_close :: "nat \<Rightarrow> live_state \<Rightarrow> live_state" where
  "transport_close sid s =
     (case lookup (sessions s) sid of
        None \<Rightarrow> s
      | Some se \<Rightarrow>
          onclose sid (s\<lparr> sessions := (sessions s)[sid := se\<lparr> conn_closed := True \<rparr>] \<rparr>))"

datatype event =
    SelectSetting setting_key nat
  | ClickStartStop
  | ClickPause
  | ClickTab
  | MicGranted nat
  | MicRefused nat js_error
  | ConnectFulfilled nat
  | ConnectRejected nat
  | TransportOpen nat
  | TransportMessage nat LiveServerMessage
  | TransportClose nat
  | TransportError nat js_error
  | AudioProcess nat float32array
  | SourceEnded nat
  | ClockReads nat real

text \<open>The main button starts or stops by \<open>liveActive\<close>; the pause button is shown
  only while \<open>liveActive\<close>; a tab button stops the session and clears the error. A
  callback of a session can only fire once the session exists.\<close>

definition step :: "event \<Rightarrow> live_state \<Rightarrow> live_state" where
  "step ev s =
     (case ev of
        SelectSetting key v \<Rightarrow> handleSettingChange key v s
      | ClickStartStop \<Rightarrow> if liveActive s then stopLiveSession s else startLiveSession s
      | ClickPause \<Rightarrow> if liveActive s then togglePauseOutput s else s
      | ClickTab \<Rightarrow> (stopLiveSession s)\<lparr> error := None \<rparr>
      | MicGranted a \<Rightarrow> getUserMedia_resolved a s
      | MicRefused a e \<Rightarrow> getUserMedia_rejected a e s
      | ConnectFulfilled sid \<Rightarrow> connect_fulfilled sid s
      | ConnectRejected sid \<Rightarrow> connect_rejected sid s
      | TransportOpen sid \<Rightarrow> transport_open sid s
      | TransportMessage sid msg \<Rightarrow> snd (onmessage sid msg s)
      | TransportClose sid \<Rightarrow> transport_close sid s
      | TransportError sid e \<Rightarrow> if sid < length (sessions s) then onerror sid e s else s
      | AudioProcess p inputData \<Rightarrow> onaudioprocess p inputData s
      | SourceEnded source \<Rightarrow> source_ended source s
      | ClockReads c t \<Rightarrow> clock_reads c t s)"

fun run :: "event list \<Rightarrow> live_state \<Rightarrow> live_state" where
  "run [] s = s"
| "run (ev # evs) s = run evs (step ev s)"

definition audio_message :: "string \<Rightarrow> LiveServerMessage" where
  "audio_message b64 =
     \<lparr> serverContent = Some \<lparr> modelTurn = Some \<lparr> parts = Some
         [\<lparr> inlineData = Some \<lparr> data = b64, mimeType = ''audio/pcm;rate=24000'' \<rparr> \<rparr>] \<rparr> \<rparr> \<rparr>"


subsection \<open>Definitions used to state the properties\<close>

text \<open>The buffer an inbound message decodes to at a given rate, if it carries a
  payload that decodes.\<close>

definition decoded_audio :: "nat \<Rightarrow> LiveServerMessage \<Rightarrow> AudioBuffer option" where
  "decoded_audio rate msg =
     (case inline_audio msg of
        None \<Rightarrow> None
      | Some b64 \<Rightarrow>
          if b64 = [] then None
          else (case decode b64 of
                  Inl e \<Rightarrow> None
                | Inr bytes \<Rightarrow>
                    (case decodeAudioData bytes rate 1 of
                       Inl e \<Rightarrow> None
                     | Inr audioBuf \<Rightarrow> Some audioBuf)))"

text \<open>Messages of session \<open>sid\<close> handled one after the other, the output clock of
  context \<open>c\<close> reading \<open>t\<close> when the message paired with \<open>t\<close> is handled.\<close>

definition arrivals :: "nat \<Rightarrow> nat \<Rightarrow> (real \<times> LiveServerMessage) list \<Rightarrow> event list" where
  "arrivals c sid tms = concat (map (\<lambda>(t, msg). [ClockReads c t, TransportMessage sid msg]) tms)"

text \<open>The schedule as a recurrence on pairs of a clock reading and a duration: each
  start is the larger of the schedule clock and the reading, and the schedule clock moves
  to that start plus the duration.\<close>

fun start_times :: "real \<Rightarrow> (real \<times> real) list \<Rightarrow> real list" where
  "start_times clock [] = []"
| "start_times clock ((now, d) # rest) = max clock now # start_times (max clock now + d) rest"

text \<open>Back-to-back start times, in the words of the specification: buffer \<open>k\<close> starts
  at the offset plus the durations of the buffers before it.\<close>

definition back_to_back :: "real \<Rightarrow> real list \<Rightarrow> real list" where
  "back_to_back offset ds = map (\<lambda>k. offset + sum_list (take k ds)) [0 ..< length ds]"

text \<open>Runs of the component used below. In the first the microphone is refused, the
  user starts again, and the second attempt connects. In the second the main button is
  pressed twice while connecting, both microphone requests are granted, and the second
  session opens. In the third the transport closes a connected session. In the last a
  session plays one buffer and is stopped, and a second session receives its first
  buffer.\<close>

definition refused_then_connected :: "event list" where
  "refused_then_connected =
     [ClickStartStop,
      MicRefused 0 \<lparr> err_name = ''NotAllowedError'', err_message = Some ''Permission denied'',
                     err_toString = ''NotAllowedError: Permission denied'' \<rparr>,
      ClickStartStop, MicGranted 1, TransportOpen 0]"

definition overlapping_starts :: "event list" where
  "overlapping_starts =
     [ClickStartStop, ClickStartStop, MicGranted 0, MicGranted 1, TransportOpen 1]"

definition closed_by_transport :: "event list" where
  "closed_by_transport =
     [ClickStartStop, MicGranted 0, TransportOpen 0, ConnectFulfilled 0, TransportClose 0]"

definition two_sessions :: "event list" where
  "two_sessions =
     [ClickStartStop, MicGranted 0, TransportOpen 0, ClockReads 1 (1 / 4),
      TransportMessage 0 (audio_message ''AAAAAA==''), ClickStartStop,
      ClickStartStop, MicGranted 1, TransportOpen 1,
      TransportMessage 1 (audio_message ''AAA='')]"

text \<open>What a ref points to is torn down: the context is closed, every track of the
  stream has ended. A null ref has nothing to tear down (nor has a position that holds
  no object, which no run of the component produces).\<close>

definition ref_context_closed :: "nat option \<Rightarrow> live_state \<Rightarrow> bool" where
  "ref_context_closed r s =
     (case r of
        None \<Rightarrow> True
      | Some c \<Rightarrow> (case lookup (contexts s) c of None \<Rightarrow> True | Some cx \<Rightarrow> ctx_state cx = Closed))"

definition ref_tracks_ended :: "nat option \<Rightarrow> live_state \<Rightarrow> bool" where
  "ref_tracks_ended r s =
     (case r of
        None \<Rightarrow> True
      | Some m \<Rightarrow> (case lookup (streams s) m of
                     None \<Rightarrow> True
                   | Some tracks \<Rightarrow> list_all (\<lambda>t. t = Ended) tracks))"

text \<open>A message without an audio payload (none, or the empty string, which is falsy).\<close>

definition no_audio :: "LiveServerMessage \<Rightarrow> bool" where
  "no_audio msg = (case inline_audio msg of None \<Rightarrow> True | Some b64 \<Rightarrow> b64 = [])"

text \<open>The frames the transport has been handed.\<close>

definition sent_frames :: "wire_event list \<Rightarrow> GenAIBlob list" where
  "sent_frames w = concat (map (\<lambda>ev. case ev of Sent sid pcmBlob \<Rightarrow> [pcmBlob] | _ \<Rightarrow> []) w)"

text \<open>Every send on the wire comes after the open event of its session; and the
  invariant that carries it through the events: each script processor, and each send
  waiting for the session promise, belongs to a session whose open event is on the wire.\<close>

definition sends_after_open :: "wire_event list \<Rightarrow> bool" where
  "sends_after_open w \<longleftrightarrow>
     (\<forall>i < length w. \<forall>sid pcmBlob. w ! i = Sent sid pcmBlob \<longrightarrow> Opened sid \<in> set (take i w))"

definition wired_after_open ::
    "wire_event list \<Rightarrow> nat list \<Rightarrow> then_callback list list \<Rightarrow> bool" where
  "wired_after_open w ps qs \<longleftrightarrow>
     sends_after_open w
     \<and> (\<forall>sid \<in> set ps. Opened sid \<in> set w)
     \<and> (\<forall>sid < length qs. \<forall>pcmBlob. SendRealtimeInput pcmBlob \<in> set (qs ! sid)
                                       \<longrightarrow> Opened sid \<in> set w)"

definition capture_inv :: "live_state \<Rightarrow> bool" where
  "capture_inv s \<longleftrightarrow>
     wired_after_open (wire s) (map proc_session (processors s)) (map waiting (sessions s))"

section \<open>Properties of the codec\<close>

lemma int16_of_bytes_split: "int16_of_bytes (ucast w) (ucast (drop_bit 8 w)) = w"
  unfolding int16_of_bytes_def
  by (rule bit_word_eqI) (auto simp add: bit_simps)

lemma int16_pairs_view: "int16_pairs (uint8_view ws) = ws"
  by (induction ws) (simp_all add: uint8_view_def int16_bytes_def int16_of_bytes_split)

lemma length_uint8_view: "length (uint8_view ws) = 2 * length ws"
  by (induction ws) (simp_all add: uint8_view_def int16_bytes_def)

lemma int16_view_uint8_view: "int16_view (uint8_view ws) = Inr ws"
  by (simp add: int16_view_def length_uint8_view int16_pairs_view)

lemma b64_sextets_bound: "\<forall>n \<in> set (b64_sextets bs). n < 64"
proof (induction bs rule: b64_sextets.induct)
  case (1 a b c rest)
  have "unat a < 256" "unat b < 256" "unat c < 256" by (simp_all add: unsigned_less[where 'b = 8, simplified])
  with 1 show ?case by auto
next
  case (2 a b)
  have "unat a < 256" "unat b < 256"  by (simp_all add: unsigned_less[where 'b = 8, simplified])
  then show ?case by auto
next
  case (3 a)
  have "unat a < 256" by (simp_all add: unsigned_less[where 'b = 8, simplified])
  then show ?case by auto
qed simp

lemma byte_bound: "unat (a :: 8 word) < 256"
  using unsigned_less [of a] by simp

lemma hi_lo_div: "y < k \<Longrightarrow> (x * k + y) div k = (x::nat)"
  by simp

lemma hi_lo_mod: "y < k \<Longrightarrow> (x * k + y) mod k = (y::nat)"
  by simp

lemma regroup_first:
  fixes a b :: "8 word"
  shows "unat a div 4 * 4 + (unat a mod 4 * 16 + unat b div 16) div 16 = unat a"
proof -
  have "unat b div 16 < 16" using byte_bound [of b] by simp
  then show ?thesis by (simp add: hi_lo_div)
qed

lemma regroup_first_tail:
  fixes a :: "8 word"
  shows "unat a div 4 * 4 + (unat a mod 4 * 16) div 16 = unat a"
  by simp

lemma regroup_second:
  fixes a b c :: "8 word"
  shows "(unat a mod 4 * 16 + unat b div 16) mod 16 * 16
           + (unat b mod 16 * 4 + unat c div 64) div 4 = unat b"
proof -
  have "unat b div 16 < 16" using byte_bound [of b] by simp
  moreover have "unat c div 64 < 4" using byte_bound [of c] by simp
  ultimately show ?thesis by (simp add: hi_lo_div hi_lo_mod)
qed

lemma regroup_second_tail:
  fixes a b :: "8 word"
  shows "(unat a mod 4 * 16 + unat b div 16) mod 16 * 16 + (unat b mod 16 * 4) div 4 = unat b"
proof -
  have "unat b div 16 < 16" using byte_bound [of b] by simp
  then show ?thesis by (simp add: hi_lo_mod)
qed

lemma regroup_third:
  fixes b c :: "8 word"
  shows "(unat b mod 16 * 4 + unat c div 64) mod 4 * 64 + unat c mod 64 = unat c"
proof -
  have "unat c div 64 < 4" using byte_bound [of c] by simp
  then show ?thesis by (simp add: hi_lo_mod)
qed

lemma b64_bytes_sextets: "b64_bytes (b64_sextets bs) = bs"
proof (induction bs rule: b64_sextets.induct)
  case (1 a b c rest)
  have "b64_bytes (b64_sextets (a # b # c # rest))
        = [of_nat (unat a div 4 * 4 + (unat a mod 4 * 16 + unat b div 16) div 16),
           of_nat ((unat a mod 4 * 16 + unat b div 16) mod 16 * 16
                   + (unat b mod 16 * 4 + unat c div 64) div 4),
           of_nat ((unat b mod 16 * 4 + unat c div 64) mod 4 * 64 + unat c mod 64)]
          @ b64_bytes (b64_sextets rest)"
    by (simp only: b64_sextets.simps b64_bytes.simps append_Cons append_Nil)
  also have "\<dots> = [a, b, c] @ rest"
    by (simp only: regroup_first regroup_second regroup_third 1 of_nat_unat ucast_id)
  finally show ?case by simp
next
  case (2 a b)
  have "b64_bytes (b64_sextets [a, b])
        = [of_nat (unat a div 4 * 4 + (unat a mod 4 * 16 + unat b div 16) div 16),
           of_nat ((unat a mod 4 * 16 + unat b div 16) mod 16 * 16
                   + (unat b mod 16 * 4) div 4)]"
    by (simp only: b64_sextets.simps b64_bytes.simps append_Cons append_Nil)
  also have "\<dots> = [a, b]"
    by (simp only: regroup_first regroup_second_tail of_nat_unat ucast_id)
  finally show ?case .
next
  case (3 a)
  have "b64_bytes (b64_sextets [a])
        = [of_nat (unat a div 4 * 4 + (unat a mod 4 * 16) div 16)]"
    by (simp only: b64_sextets.simps b64_bytes.simps append_Cons append_Nil)
  also have "\<dots> = [a]"
    by (simp only: regroup_first_tail of_nat_unat ucast_id)
  finally show ?case .
next
  case 4
  show ?case by simp
qed

lemma b64_index_char: "n < 64 \<Longrightarrow> b64_index (b64_char n) = Some n"
proof -
  have "\<forall>n \<in> set [0..<64]. b64_index (b64_char n) = Some n"
    by code_simp
  then show "n < 64 \<Longrightarrow> b64_index (b64_char n) = Some n" by simp
qed

lemma b64_char_not_special: "n < 64 \<Longrightarrow> \<not> ascii_whitespace (b64_char n) \<and> b64_char n \<noteq> CHR ''=''"
proof -
  have "\<forall>n \<in> set [0..<64]. \<not> ascii_whitespace (b64_char n) \<and> b64_char n \<noteq> CHR ''=''"
    by code_simp
  then show "n < 64 \<Longrightarrow> \<not> ascii_whitespace (b64_char n) \<and> b64_char n \<noteq> CHR ''=''" by simp
qed


lemma length_b64_sextets:
  "length (b64_sextets bs)
     = 4 * (length bs div 3) + (if length bs mod 3 = 0 then 0 else length bs mod 3 + 1)"
  by (induction bs rule: b64_sextets.induct) simp_all

lemma sextets_option_chars:
  "\<forall>n \<in> set ns. n < 64 \<Longrightarrow> sextets_option (map b64_char ns) = Some ns"
  by (induction ns) (simp_all add: b64_index_char)

lemma filter_b64_chars:
  "\<forall>n \<in> set ns. n < 64 \<Longrightarrow>
   filter (\<lambda>c. \<not> ascii_whitespace c) (map b64_char ns @ replicate k (CHR ''=''))
     = map b64_char ns @ replicate k (CHR ''='')"
proof -
  assume b: "\<forall>n \<in> set ns. n < 64"
  have "\<not> ascii_whitespace (CHR ''='')" by (simp add: ascii_whitespace_def)
  then have "\<forall>c \<in> set (map b64_char ns @ replicate k (CHR ''='')). \<not> ascii_whitespace c"
    using b by (auto simp add: b64_char_not_special)
  then show ?thesis by (simp only: filter_True)
qed

lemma last_b64_chars:
  "\<forall>n \<in> set ns. n < 64 \<Longrightarrow> ns \<noteq> [] \<Longrightarrow> last (map b64_char ns) \<noteq> CHR ''=''"
  by (simp add: last_map b64_char_not_special)

lemma strip_padding_btoa:
  assumes "\<forall>n \<in> set ns. n < 64" and "k \<le> 2" and "(length ns + k) mod 4 = 0"
    and "k \<noteq> 0 \<longrightarrow> ns \<noteq> []"
  shows "strip_padding (map b64_char ns @ replicate k (CHR ''='')) = map b64_char ns"
proof -
  consider "k = 0" | "k = 1" | "k = 2" using assms(2) by arith
  then show ?thesis
  proof cases
    case 1
    show ?thesis
    proof (cases "ns = []")
      case True
      with 1 show ?thesis by (simp add: strip_padding_def)
    next
      case False
      with 1 assms(1) show ?thesis
        using last_b64_chars [of ns] by (simp add: strip_padding_def)
    qed
  next
    case 2
    with assms have ne: "ns \<noteq> []" by simp
    with 2 assms(1,3) show ?thesis
      using last_b64_chars [of ns] by (simp add: strip_padding_def)
  next
    case 3
    with assms have ne: "ns \<noteq> []" by simp
    have r: "replicate 2 (CHR ''='') = [CHR ''='', CHR ''='']" by (simp add: numeral_2_eq_2)
    have b1: "butlast (map b64_char ns @ [CHR ''='', CHR ''='']) = map b64_char ns @ [CHR ''='']"
      by (simp add: butlast_append)
    show ?thesis
      using 3 assms(3) by (simp add: strip_padding_def r b1 del: replicate_Suc)
  qed
qed

lemma b64_sextets_Nil: "b64_sextets bs = [] \<longleftrightarrow> bs = []"
  by (induction bs rule: b64_sextets.induct) simp_all

lemma atob_btoa: "atob (btoa bs) = Inr bs"
proof -
  let ?ns = "b64_sextets bs"
  let ?k = "(3 - length bs mod 3) mod 3"
  have bound: "\<forall>n \<in> set ?ns. n < 64" by (rule b64_sextets_bound)
  have k2: "?k \<le> 2" by arith
  have len: "(length ?ns + ?k) mod 4 = 0"
    by (simp add: length_b64_sextets)
  have ne: "?k \<noteq> 0 \<longrightarrow> ?ns \<noteq> []"
    by (cases "bs = []") (simp_all add: b64_sextets_Nil)
  have not1: "length (map b64_char ?ns) mod 4 \<noteq> 1"
    by (simp add: length_b64_sextets)
  have "strip_padding (filter (\<lambda>c. \<not> ascii_whitespace c) (btoa bs)) = map b64_char ?ns"
    unfolding btoa_def
    by (simp only: filter_b64_chars [OF bound] strip_padding_btoa [OF bound k2 len ne])
  then show ?thesis
    using not1 by (simp add: atob_def Let_def sextets_option_chars [OF bound] b64_bytes_sextets)
qed


lemma js_truncate_range:
  "- 1 \<le> x \<Longrightarrow> x < 1 \<Longrightarrow> - 32768 \<le> js_truncate (x * 32768) \<and> js_truncate (x * 32768) < 32768"
  unfolding js_truncate_def by (auto simp: floor_less_iff le_ceiling_iff le_floor_iff ceiling_less_iff)

lemma sint_ToInt16:
  assumes "- 1 \<le> x" and "x < 1"
  shows "sint (ToInt16 (x * 32768)) = js_truncate (x * 32768)"
proof -
  from js_truncate_range [OF assms]
  have "- (2 ^ 15) \<le> js_truncate (x * 32768)" "js_truncate (x * 32768) < 2 ^ 15" by simp_all
  then show ?thesis
    unfolding ToInt16_def by (simp add: sint_sbintrunc' signed_take_bit_int_eq_self)
qed

lemma js_truncate_error: "\<bar>real_of_int (js_truncate y) - y\<bar> < 1"
  unfolding js_truncate_def by (auto simp: abs_less_iff) linarith+

lemma channel_data_mono:
  "channel_data ws (length ws) 1 0 = map (\<lambda>w. real_of_int (sint w) / 32768) ws"
proof -
  have "map (\<lambda>i. real_of_int (sint (ws ! i)) / 32768) [0 ..< length ws]
        = map (\<lambda>w. real_of_int (sint w) / 32768) (map ((!) ws) [0 ..< length ws])"
    by (simp only: map_map comp_def)
  then show ?thesis unfolding channel_data_def by (simp only: map_nth mult_1_right add_0_right)
qed

lemma decodeAudioData_mono:
  assumes "ws \<noteq> []" and "0 < rate"
  shows "decodeAudioData (uint8_view ws) rate 1
         = Inr \<lparr> channels = [map (\<lambda>w. real_of_int (sint w) / 32768) ws],
                 frames = length ws, buf_rate = rate \<rparr>"
proof -
  have one: "[0 ..< (1::nat)] = [0]" by simp
  show ?thesis
    unfolding decodeAudioData_def int16_view_uint8_view
    by (simp only: sum.case Let_def div_by_1 one list.map channel_data_mono)
       (use assms in simp)
qed

lemma decode_frame_createBlob:
  assumes "samples \<noteq> []" and "0 < rate"
  shows "decode_frame (createBlob samples) rate
         = Inr \<lparr> channels = [map (\<lambda>v. real_of_int (sint (ToInt16 (v * 32768))) / 32768) samples],
                 frames = length samples, buf_rate = rate \<rparr>"
proof -
  have ne: "float_to_int16 samples \<noteq> []" using assms(1) by (simp add: float_to_int16_def)
  have "decode_frame (createBlob samples) rate
        = decodeAudioData (uint8_view (float_to_int16 samples)) rate 1"
    by (simp add: decode_frame_def createBlob_def decode_def atob_btoa)
  also have "\<dots> = Inr \<lparr> channels = [map (\<lambda>w. real_of_int (sint w) / 32768) (float_to_int16 samples)],
                 frames = length (float_to_int16 samples), buf_rate = rate \<rparr>"
    by (rule decodeAudioData_mono [OF ne assms(2)])
  also have "map (\<lambda>w. real_of_int (sint w) / 32768) (float_to_int16 samples)
             = map (\<lambda>v. real_of_int (sint (ToInt16 (v * 32768))) / 32768) samples"
    by (simp only: float_to_int16_def map_map comp_def)
  also have "length (float_to_int16 samples) = length samples"
    by (simp add: float_to_int16_def)
  finally show ?thesis .
qed

text \<open>
  C2, as the code has it. For every sample array whose values lie in \<open>[-1, 1)\<close>,
  encoding with \<^verbatim>\<open>createBlob\<close> and decoding the frame (base64, 16-bit
  little-endian, division by 32768, into a buffer of any rate above zero) gives back
  each sample to within \<open>1/32768\<close>. The bound \<open>1\<close> itself is excluded: see the
  counterexample below.
\<close>

theorem roundtrip_within_quantum:
  assumes "\<forall>v \<in> set samples. - 1 \<le> v \<and> v < 1" and "0 < rate" and "i < length samples"
  shows "\<exists>buf ch. decode_frame (createBlob samples) rate = Inr buf
                  \<and> channels buf = [ch] \<and> length ch = length samples
                  \<and> \<bar>ch ! i - samples ! i\<bar> < 1 / 32768"
proof -
  let ?ch = "map (\<lambda>v. real_of_int (sint (ToInt16 (v * 32768))) / 32768) samples"
  from assms(3) have ne: "samples \<noteq> []" by auto
  have v: "- 1 \<le> samples ! i" "samples ! i < 1" using assms(1,3) by simp_all
  have "\<bar>real_of_int (js_truncate (samples ! i * 32768)) - samples ! i * 32768\<bar> < 1"
    by (rule js_truncate_error)
  then have "\<bar>real_of_int (js_truncate (samples ! i * 32768)) / 32768 - samples ! i\<bar> < 1 / 32768"
    by (simp add: abs_less_iff field_simps)
  then have "\<bar>?ch ! i - samples ! i\<bar> < 1 / 32768"
    using assms(3) by (simp only: nth_map sint_ToInt16 [OF v])
  moreover have "decode_frame (createBlob samples) rate
        = Inr \<lparr> channels = [?ch], frames = length samples, buf_rate = rate \<rparr>"
    by (rule decode_frame_createBlob [OF ne assms(2)])
  ultimately show ?thesis by simp
qed

theorem roundtrip_within_quantum_witness:
  "\<exists>buf ch. decode_frame (createBlob [1 / 2, - 1, 3 / 10]) 24000 = Inr buf
            \<and> channels buf = [ch] \<and> length ch = 3
            \<and> \<bar>ch ! 2 - 3 / 10\<bar> < 1 / 32768"
  using roundtrip_within_quantum [of "[1 / 2, - 1, 3 / 10]" 24000 2]
  by (simp add: numeral_3_eq_3)

text \<open>A full-scale sample \<open>1.0\<close> lies in \<open>[-1, 1]\<close> and comes back as \<open>-1.0\<close>.\<close>

theorem roundtrip_full_scale_counterexample:
  "(- 1 :: real) \<le> 1 \<and> (1 :: real) \<le> 1
   \<and> decode_frame (createBlob [1]) 16000
       = Inr \<lparr> channels = [[- 1]], frames = 1, buf_rate = 16000 \<rparr>
   \<and> \<not> \<bar>(- 1 :: real) - 1\<bar> \<le> 1 / 32768"
  by (simp add: decode_frame_createBlob ToInt16_def js_truncate_def)

text \<open>
  C3, as the code has it. \<^verbatim>\<open>createBlob\<close> has no clamp: the full-scale sample
  \<open>1.0\<close> is stored as \<open>-32768\<close>, by the wrap-around of the 16-bit store. Samples in
  \<open>[-1, 1)\<close> are stored without wrap-around, as the truncation of 32768 times the
  sample, between \<open>-32768\<close> and \<open>32767\<close>.
\<close>

theorem full_scale_wraps:
  "map sint (float_to_int16 [1]) = [- 32768]
   \<and> ((\<forall>v \<in> set samples. - 1 \<le> v \<and> v < 1) \<longrightarrow>
        map sint (float_to_int16 samples) = map (\<lambda>v. js_truncate (v * 32768)) samples
        \<and> (\<forall>k \<in> set (map sint (float_to_int16 samples)). - 32768 \<le> k \<and> k \<le> 32767))"
proof -
  have one: "map sint (float_to_int16 [1]) = [- 32768]"
    by (simp add: float_to_int16_def ToInt16_def js_truncate_def)
  have rest: "map sint (float_to_int16 samples) = map (\<lambda>v. js_truncate (v * 32768)) samples
        \<and> (\<forall>k \<in> set (map sint (float_to_int16 samples)). - 32768 \<le> k \<and> k \<le> 32767)"
    if r: "\<forall>v \<in> set samples. - 1 \<le> v \<and> v < 1"
  proof -
    have eq: "map sint (float_to_int16 samples) = map (\<lambda>v. js_truncate (v * 32768)) samples"
      using r by (simp add: float_to_int16_def sint_ToInt16)
    have "\<forall>v \<in> set samples. - 32768 \<le> js_truncate (v * 32768) \<and> js_truncate (v * 32768) \<le> 32767"
      using r js_truncate_range by fastforce
    with eq show ?thesis by simp
  qed
  from one rest show ?thesis by blast
qed

theorem full_scale_wraps_witness:
  "map sint (float_to_int16 [32767 / 32768, - 1, 1 / 2]) = [32767, - 32768, 16384]"
  using full_scale_wraps [of "[32767 / 32768, - 1, 1 / 2]"] by (simp add: js_truncate_def)

theorem full_scale_not_clamped_counterexample:
  "map sint (float_to_int16 [1]) = [- 32768]
   \<and> map sint (float_to_int16 [1]) \<noteq> [32767]
   \<and> data (createBlob [1]) = ''AIA=''"
  by (simp add: createBlob_def float_to_int16_def ToInt16_def js_truncate_def uint8_view_def
        int16_bytes_def btoa_def b64_char_def b64_alphabet_def)


section \<open>Properties of the live session\<close>

lemmas handler_defs = step_def initial_state_def handleSettingChange_def startLiveSession_def
  stopLiveSession_def stop_session_def stop_processor_def stop_stream_def
  getUserMedia_resolved_def getUserMedia_rejected_def connect_fulfilled_def
  connect_rejected_def transport_open_def transport_close_def onopen_def onmessage_def onclose_def
  onerror_def onaudioprocess_def source_ended_def clock_reads_def togglePauseOutput_def
  set_context_state_def session_then_def run_callback_def session_close_def
  disconnect_processor_def stop_tracks_def close_if_open_def close_context_def console_write_def
  lookup_def new_AudioContext_def valid_bufferSize_def Let_def

lemma run_callback_frame [simp]:
  "error (run_callback sid cb s) = error s"
  "isOutputPaused (run_callback sid cb s) = isOutputPaused s"
  "connectionState (run_callback sid cb s) = connectionState s"
  "liveActive (run_callback sid cb s) = liveActive s"
  "settings (run_callback sid cb s) = settings s"
  "audioContextRef (run_callback sid cb s) = audioContextRef s"
  "inputContextRef (run_callback sid cb s) = inputContextRef s"
  "sessionPromiseRef (run_callback sid cb s) = sessionPromiseRef s"
  "sourcesRef (run_callback sid cb s) = sourcesRef s"
  "nextStartTimeRef (run_callback sid cb s) = nextStartTimeRef s"
  "scriptProcessorRef (run_callback sid cb s) = scriptProcessorRef s"
  "mediaStreamRef (run_callback sid cb s) = mediaStreamRef s"
  "contexts (run_callback sid cb s) = contexts s"
  "streams (run_callback sid cb s) = streams s"
  "processors (run_callback sid cb s) = processors s"
  "attempts (run_callback sid cb s) = attempts s"
  "scheduled (run_callback sid cb s) = scheduled s"
  by (simp_all add: run_callback_def session_close_def console_write_def split: option.splits sum.splits promise_state.splits then_callback.splits)

lemma session_then_frame [simp]:
  "error (session_then sid cb s) = error s"
  "isOutputPaused (session_then sid cb s) = isOutputPaused s"
  "connectionState (session_then sid cb s) = connectionState s"
  "liveActive (session_then sid cb s) = liveActive s"
  "settings (session_then sid cb s) = settings s"
  "audioContextRef (session_then sid cb s) = audioContextRef s"
  "inputContextRef (session_then sid cb s) = inputContextRef s"
  "sessionPromiseRef (session_then sid cb s) = sessionPromiseRef s"
  "sourcesRef (session_then sid cb s) = sourcesRef s"
  "nextStartTimeRef (session_then sid cb s) = nextStartTimeRef s"
  "scriptProcessorRef (session_then sid cb s) = scriptProcessorRef s"
  "mediaStreamRef (session_then sid cb s) = mediaStreamRef s"
  "contexts (session_then sid cb s) = contexts s"
  "streams (session_then sid cb s) = streams s"
  "processors (session_then sid cb s) = processors s"
  "attempts (session_then sid cb s) = attempts s"
  "scheduled (session_then sid cb s) = scheduled s"
  by (simp_all add: session_then_def split: option.splits sum.splits promise_state.splits then_callback.splits)

lemma stop_session_frame [simp]:
  "error (stop_session s) = error s"
  "isOutputPaused (stop_session s) = isOutputPaused s"
  "connectionState (stop_session s) = connectionState s"
  "liveActive (stop_session s) = liveActive s"
  "settings (stop_session s) = settings s"
  "audioContextRef (stop_session s) = audioContextRef s"
  "inputContextRef (stop_session s) = inputContextRef s"
  "sessionPromiseRef (stop_session s) = sessionPromiseRef s"
  "sourcesRef (stop_session s) = sourcesRef s"
  "nextStartTimeRef (stop_session s) = nextStartTimeRef s"
  "scriptProcessorRef (stop_session s) = scriptProcessorRef s"
  "mediaStreamRef (stop_session s) = mediaStreamRef s"
  "contexts (stop_session s) = contexts s"
  "streams (stop_session s) = streams s"
  "processors (stop_session s) = processors s"
  "attempts (stop_session s) = attempts s"
  "scheduled (stop_session s) = scheduled s"
  by (simp_all add: stop_session_def split: option.splits sum.splits promise_state.splits then_callback.splits)

lemma stop_processor_frame [simp]:
  "error (stop_processor s) = error s"
  "isOutputPaused (stop_processor s) = isOutputPaused s"
  "connectionState (stop_processor s) = connectionState s"
  "liveActive (stop_processor s) = liveActive s"
  "settings (stop_processor s) = settings s"
  "audioContextRef (stop_processor s) = audioContextRef s"
  "inputContextRef (stop_processor s) = inputContextRef s"
  "sessionPromiseRef (stop_processor s) = sessionPromiseRef s"
  "sourcesRef (stop_processor s) = sourcesRef s"
  "nextStartTimeRef (stop_processor s) = nextStartTimeRef s"
  "scriptProcessorRef (stop_processor s) = scriptProcessorRef s"
  "mediaStreamRef (stop_processor s) = mediaStreamRef s"
  "contexts (stop_processor s) = contexts s"
  "streams (stop_processor s) = streams s"
  "sessions (stop_processor s) = sessions s"
  "attempts (stop_processor s) = attempts s"
  "scheduled (stop_processor s) = scheduled s"
  "console (stop_processor s) = console s"
  "wire (stop_processor s) = wire s"
  by (simp_all add: stop_processor_def disconnect_processor_def split: option.splits sum.splits promise_state.splits then_callback.splits)

lemma stop_stream_frame [simp]:
  "error (stop_stream s) = error s"
  "isOutputPaused (stop_stream s) = isOutputPaused s"
  "connectionState (stop_stream s) = connectionState s"
  "liveActive (stop_stream s) = liveActive s"
  "settings (stop_stream s) = settings s"
  "audioContextRef (stop_stream s) = audioContextRef s"
  "inputContextRef (stop_stream s) = inputContextRef s"
  "sessionPromiseRef (stop_stream s) = sessionPromiseRef s"
  "sourcesRef (stop_stream s) = sourcesRef s"
  "nextStartTimeRef (stop_stream s) = nextStartTimeRef s"
  "scriptProcessorRef (stop_stream s) = scriptProcessorRef s"
  "mediaStreamRef (stop_stream s) = mediaStreamRef s"
  "contexts (stop_stream s) = contexts s"
  "sessions (stop_stream s) = sessions s"
  "processors (stop_stream s) = processors s"
  "attempts (stop_stream s) = attempts s"
  "scheduled (stop_stream s) = scheduled s"
  "console (stop_stream s) = console s"
  "wire (stop_stream s) = wire s"
  by (simp_all add: stop_stream_def stop_tracks_def split: option.splits sum.splits promise_state.splits then_callback.splits)

lemma close_if_open_frame [simp]:
  "error (close_if_open r label s) = error s"
  "isOutputPaused (close_if_open r label s) = isOutputPaused s"
  "connectionState (close_if_open r label s) = connectionState s"
  "liveActive (close_if_open r label s) = liveActive s"
  "settings (close_if_open r label s) = settings s"
  "audioContextRef (close_if_open r label s) = audioContextRef s"
  "inputContextRef (close_if_open r label s) = inputContextRef s"
  "sessionPromiseRef (close_if_open r label s) = sessionPromiseRef s"
  "sourcesRef (close_if_open r label s) = sourcesRef s"
  "nextStartTimeRef (close_if_open r label s) = nextStartTimeRef s"
  "scriptProcessorRef (close_if_open r label s) = scriptProcessorRef s"
  "mediaStreamRef (close_if_open r label s) = mediaStreamRef s"
  "streams (close_if_open r label s) = streams s"
  "sessions (close_if_open r label s) = sessions s"
  "processors (close_if_open r label s) = processors s"
  "attempts (close_if_open r label s) = attempts s"
  "scheduled (close_if_open r label s) = scheduled s"
  "wire (close_if_open r label s) = wire s"
  by (simp_all add: close_if_open_def close_context_def console_write_def split: option.splits sum.splits promise_state.splits then_callback.splits)

lemma stopLiveSession_frame [simp]:
  "error (stopLiveSession s) = error s"
  "isOutputPaused (stopLiveSession s) = isOutputPaused s"
  "settings (stopLiveSession s) = settings s"
  "audioContextRef (stopLiveSession s) = audioContextRef s"
  "inputContextRef (stopLiveSession s) = inputContextRef s"
  "sessionPromiseRef (stopLiveSession s) = sessionPromiseRef s"
  "sourcesRef (stopLiveSession s) = sourcesRef s"
  "nextStartTimeRef (stopLiveSession s) = nextStartTimeRef s"
  "scriptProcessorRef (stopLiveSession s) = scriptProcessorRef s"
  "mediaStreamRef (stopLiveSession s) = mediaStreamRef s"
  "attempts (stopLiveSession s) = attempts s"
  "scheduled (stopLiveSession s) = scheduled s"
  by (simp_all add: stopLiveSession_def Let_def)

lemma stopLiveSession_state [simp]:
  "connectionState (stopLiveSession s) = DISCONNECTED"
  "liveActive (stopLiveSession s) = False"
  by (simp_all add: stopLiveSession_def Let_def)

lemma ref_context_closed_cong:
  "contexts s' = contexts s \<Longrightarrow> ref_context_closed r s' = ref_context_closed r s"
  by (simp add: ref_context_closed_def split: option.splits)

lemma ref_tracks_ended_cong:
  "streams s' = streams s \<Longrightarrow> ref_tracks_ended r s' = ref_tracks_ended r s"
  by (simp add: ref_tracks_ended_def split: option.splits)

lemma close_if_open_closes: "ref_context_closed r (close_if_open r label s)"
  by (simp add: ref_context_closed_def close_if_open_def close_context_def lookup_def
        split: option.splits)

lemma close_if_open_keeps_closed:
  "ref_context_closed r' s \<Longrightarrow> ref_context_closed r' (close_if_open r label s)"
  by (auto simp add: ref_context_closed_def close_if_open_def close_context_def lookup_def nth_list_update
        split: option.splits if_splits)

lemma stop_stream_ends: "ref_tracks_ended (mediaStreamRef s) (stop_stream s)"
  by (simp add: ref_tracks_ended_def stop_stream_def stop_tracks_def lookup_def list_all_iff
        split: option.splits)

lemma stopLiveSession_tracks: "ref_tracks_ended (mediaStreamRef s) (stopLiveSession s)"
proof -
  have "streams (stopLiveSession s) = streams (stop_stream (stop_processor (stop_session s)))"
    by (simp add: stopLiveSession_def Let_def)
  moreover have "ref_tracks_ended (mediaStreamRef (stop_processor (stop_session s)))
                   (stop_stream (stop_processor (stop_session s)))"
    by (rule stop_stream_ends)
  ultimately show ?thesis
    by (simp add: ref_tracks_ended_cong [of "stopLiveSession s" "stop_stream (stop_processor (stop_session s))"])
qed

lemma stopLiveSession_input_closed: "ref_context_closed (inputContextRef s) (stopLiveSession s)"
proof -
  let ?s3 = "stop_stream (stop_processor (stop_session s))"
  let ?s4 = "close_if_open (inputContextRef ?s3) ''InputCtx close error'' ?s3"
  let ?s5 = "close_if_open (audioContextRef ?s4) ''AudioCtx close error'' ?s4"
  have c: "contexts (stopLiveSession s) = contexts ?s5"
    by (simp add: stopLiveSession_def Let_def)
  have "ref_context_closed (inputContextRef ?s3) ?s4" by (rule close_if_open_closes)
  then have "ref_context_closed (inputContextRef ?s3) ?s5" by (rule close_if_open_keeps_closed)
  then show ?thesis
    by (simp add: ref_context_closed_cong [OF c])
qed

lemma stopLiveSession_output_closed: "ref_context_closed (audioContextRef s) (stopLiveSession s)"
proof -
  let ?s3 = "stop_stream (stop_processor (stop_session s))"
  let ?s4 = "close_if_open (inputContextRef ?s3) ''InputCtx close error'' ?s3"
  let ?s5 = "close_if_open (audioContextRef ?s4) ''AudioCtx close error'' ?s4"
  have c: "contexts (stopLiveSession s) = contexts ?s5"
    by (simp add: stopLiveSession_def Let_def)
  have "ref_context_closed (audioContextRef ?s4) ?s5" by (rule close_if_open_closes)
  then show ?thesis
    by (simp add: ref_context_closed_cong [OF c])
qed

lemma stopLiveSession_lengths:
  "length (contexts (stopLiveSession s)) = length (contexts s)"
  "length (streams (stopLiveSession s)) = length (streams s)"
proof -
  have c: "length (contexts (close_if_open r label t)) = length (contexts t)" for r label t
    by (simp add: close_if_open_def close_context_def split: option.splits)
  have m: "length (streams (stop_stream t)) = length (streams t)" for t
    by (simp add: stop_stream_def stop_tracks_def split: option.splits)
  show "length (contexts (stopLiveSession s)) = length (contexts s)"
    by (simp add: stopLiveSession_def Let_def c)
  show "length (streams (stopLiveSession s)) = length (streams s)"
    by (simp add: stopLiveSession_def Let_def m)
qed

lemma stop_session_closed:
  assumes "sessionPromiseRef s = Some sid" and "lookup (sessions s) sid = Some se"
    and "promise se = Fulfilled" and "conn_closed se"
  shows "session_close sid s = Inr s" and "stop_session s = s"
  using assms by (simp_all add: stop_session_def session_then_def run_callback_def session_close_def)

lemma stopLiveSession_sessions: "sessions (stopLiveSession s) = sessions (stop_session s)"
  by (simp add: stopLiveSession_def Let_def)

lemma console_close_if_open: "console (close_if_open r label s) = console s"
  by (simp add: close_if_open_def close_context_def console_write_def split: option.splits)

lemma stopLiveSession_console: "console (stopLiveSession s) = console (stop_session s)"
  by (simp add: stopLiveSession_def Let_def console_close_if_open)

lemma stopLiveSession_wire: "wire (stopLiveSession s) = wire (stop_session s)"
  by (simp add: stopLiveSession_def Let_def)





text \<open>
  C6. A transport error is logged, surfaced as \<open>Live Session Error: \<close> followed by the
  formatted message, and the teardown runs. The state setter of \<^verbatim>\<open>onerror\<close> puts
  \<open>ERROR\<close>, and the call of \<^verbatim>\<open>stopLiveSession\<close> on the next line puts
  \<open>DISCONNECTED\<close> over it: the resulting state is \<open>DISCONNECTED\<close>, not \<open>ERROR\<close>.
\<close>

theorem onerror_ends_disconnected:
  "connectionState (onerror sid e s) = DISCONNECTED
   \<and> connectionState (onerror sid e s) \<noteq> ERROR
   \<and> error (onerror sid e s) = Some (''Live Session Error: '' @ formatGeminiError e)
   \<and> (ERR, err_toString e) \<in> set (console (onerror sid e s))
   \<and> liveActive (onerror sid e s) = False
   \<and> ref_tracks_ended (mediaStreamRef s) (onerror sid e s)
   \<and> ref_context_closed (inputContextRef s) (onerror sid e s)
   \<and> ref_context_closed (audioContextRef s) (onerror sid e s)"
proof -
  let ?s3 = "(console_write ERR (err_toString e) s)
               \<lparr> error := Some (''Live Session Error: '' @ formatGeminiError e),
                 connectionState := ERROR \<rparr>"
  have eq: "onerror sid e s = stopLiveSession ?s3"
    by (simp add: onerror_def Let_def)
  have "(ERR, err_toString e) \<in> set (console ?s3)" by (simp add: console_write_def)
  moreover have "set (console ?s3) \<subseteq> set (console (stopLiveSession ?s3))"
    by (auto simp add: stopLiveSession_console stop_session_def session_then_def
          run_callback_def session_close_def console_write_def
          split: option.splits promise_state.splits sum.splits)
  ultimately have log: "(ERR, err_toString e) \<in> set (console (onerror sid e s))"
    unfolding eq by blast
  have refs: "mediaStreamRef ?s3 = mediaStreamRef s" "inputContextRef ?s3 = inputContextRef s"
    "audioContextRef ?s3 = audioContextRef s"
    by (simp_all add: console_write_def)
  show ?thesis
    using log stopLiveSession_tracks [of ?s3] stopLiveSession_input_closed [of ?s3]
      stopLiveSession_output_closed [of ?s3]
    unfolding eq refs by (simp add: console_write_def)
qed

text \<open>
  C4. With the input rate set to 24000 the input context runs at 24000 Hz, and the frame
  that is sent still declares \<open>audio/pcm;rate=16000\<close>: the descriptor is a literal of
  \<^verbatim>\<open>createBlob\<close>, which does not see the settings.
\<close>

theorem declared_mime_ignores_input_rate:
  "let s = run [SelectSetting InputSampleRate 24000, ClickStartStop, MicGranted 0,
                TransportOpen 0, ConnectFulfilled 0, AudioProcess 0 [1 / 2]] initial_state
   in inputSampleRate (settings s) = 24000
      \<and> map sampleRate (contexts s) = [24000, 24000]
      \<and> map mimeType (sent_frames (wire s)) = [''audio/pcm;rate=16000'']"
  by (simp add: handler_defs sent_frames_def createBlob_def)

text \<open>
  C10. A message without an audio payload, or a message that arrives while the output
  context is absent or closed, leaves the whole state as it is (no playback scheduled,
  schedule clock and active sources unchanged) and raises nothing.
\<close>

theorem onmessage_noop:
  assumes "no_audio msg \<or> ref_context_closed (audioContextRef s) s"
  shows "onmessage sid msg s = (None, s)"
  using assms
  by (auto simp add: onmessage_def no_audio_def ref_context_closed_def
        split: option.splits)

theorem onmessage_noop_witness:
  "let s = run [ClickStartStop, MicGranted 0, TransportOpen 0, ClickStartStop] initial_state
   in sessions s \<noteq> [] \<and> audioContextRef s = Some 1
      \<and> map ctx_state (contexts s) = [Closed, Closed]
      \<and> \<not> no_audio (audio_message ''AAAAAA=='')
      \<and> onmessage 0 (audio_message ''AAAAAA=='') s = (None, s)"
  using onmessage_noop
    [of "audio_message ''AAAAAA==''"
        "run [ClickStartStop, MicGranted 0, TransportOpen 0, ClickStartStop] initial_state" 0]
  by (simp add: handler_defs ref_context_closed_def no_audio_def audio_message_def inline_audio_def)


lemma format_mic_messages:
  "formatGeminiError (new_Error mic_denied_message) = mic_denied_message"
  "formatGeminiError (new_Error mic_not_found_message) = mic_not_found_message"
  "formatGeminiError (new_Error mic_other_message) = mic_other_message"
  by (simp_all add: formatGeminiError_def new_Error_def or_else_def toLowerCase_def
        lower_char_def mic_denied_message_def mic_not_found_message_def mic_other_message_def)

lemma mic_messages_distinct:
  "mic_denied_message \<noteq> mic_not_found_message"
  "mic_denied_message \<noteq> mic_other_message"
  "mic_not_found_message \<noteq> mic_other_message"
  by (simp_all add: mic_denied_message_def mic_not_found_message_def mic_other_message_def)

text \<open>
  C9. When \<^verbatim>\<open>getUserMedia\<close> rejects, the state becomes \<open>ERROR\<close> and the error shown
  is chosen by the name of the rejection: one message for a refused permission, another
  for a missing device, a third for anything else, the three being different strings
  that pass through \<^verbatim>\<open>formatGeminiError\<close> unchanged. No stream, session or processor
  is created, nothing reaches the transport, and a later grant for the same request has
  no effect.
\<close>

theorem microphone_failure:
  assumes "lookup (attempts s) a = Some att" and "att_waiting att"
  shows "connectionState (getUserMedia_rejected a e s) = ERROR
    \<and> error (getUserMedia_rejected a e s)
        = Some (if err_name e = ''NotAllowedError'' \<or> err_name e = ''PermissionDeniedError''
                  then mic_denied_message
                else if err_name e = ''NotFoundError'' \<or> err_name e = ''DevicesNotFoundError''
                  then mic_not_found_message
                else mic_other_message)
    \<and> mic_denied_message \<noteq> mic_not_found_message
    \<and> mic_denied_message \<noteq> mic_other_message
    \<and> mic_not_found_message \<noteq> mic_other_message
    \<and> sessions (getUserMedia_rejected a e s) = sessions s
    \<and> sessionPromiseRef (getUserMedia_rejected a e s) = sessionPromiseRef s
    \<and> streams (getUserMedia_rejected a e s) = streams s
    \<and> mediaStreamRef (getUserMedia_rejected a e s) = mediaStreamRef s
    \<and> processors (getUserMedia_rejected a e s) = processors s
    \<and> wire (getUserMedia_rejected a e s) = wire s
    \<and> liveActive (getUserMedia_rejected a e s) = liveActive s
    \<and> getUserMedia_resolved a (getUserMedia_rejected a e s) = getUserMedia_rejected a e s"
  using assms
  by (simp add: getUserMedia_rejected_def getUserMedia_resolved_def Let_def console_write_def
        microphone_error_def format_mic_messages mic_messages_distinct lookup_def
        split: if_splits)

theorem microphone_failure_witness:
  "let s = run [ClickStartStop,
                MicRefused 0 \<lparr> err_name = ''NotAllowedError'',
                               err_message = Some ''Permission denied'',
                               err_toString = ''NotAllowedError: Permission denied'' \<rparr>]
             initial_state
   in connectionState s = ERROR \<and> error s = Some mic_denied_message \<and> sessions s = []
      \<and> wire s = [] \<and> liveActive s = False"
  using microphone_failure
    [of "step ClickStartStop initial_state" 0
        "\<lparr> att_inputCtx = 0, att_outputCtx = 1,
           att_settings = \<lparr> inputSampleRate = 16000, outputSampleRate = 24000, bufferSize = 4096 \<rparr>,
           att_waiting = True \<rparr>"
        "\<lparr> err_name = ''NotAllowedError'', err_message = Some ''Permission denied'',
           err_toString = ''NotAllowedError: Permission denied'' \<rparr>"]
  by (simp add: step_def startLiveSession_def initial_state_def lookup_def Let_def
        new_AudioContext_def)


lemma decoded_audio_SomeD:
  assumes "decoded_audio rate msg = Some buf"
  shows "\<exists>b64 bytes. inline_audio msg = Some b64 \<and> b64 \<noteq> [] \<and> decode b64 = Inr bytes
           \<and> decodeAudioData bytes rate 1 = Inr buf"
  using assms
  by (auto simp add: decoded_audio_def split: option.splits if_splits sum.splits)

lemma onmessage_schedules:
  assumes "lookup (sessions s) sid = Some se" and "audioContextRef s = Some c"
    and "lookup (contexts s) c = Some cx" and "ctx_state cx \<noteq> Closed"
    and "sess_outputCtx se = c"
    and "decoded_audio (outputSampleRate (sess_settings se)) msg = Some buf"
  shows "onmessage sid msg s =
           (None, s\<lparr> scheduled := scheduled s @
                        [\<lparr> src_ctx = c, src_buffer = buf,
                           src_when = max (nextStartTimeRef s) (currentTime cx) \<rparr>],
                      nextStartTimeRef := max (nextStartTimeRef s) (currentTime cx) + duration buf,
                      sourcesRef := insert (length (scheduled s)) (sourcesRef s) \<rparr>)"
proof -
  from decoded_audio_SomeD [OF assms(6)] obtain b64 bytes where
    d: "inline_audio msg = Some b64" "b64 \<noteq> []" "decode b64 = Inr bytes"
       "decodeAudioData bytes (outputSampleRate (sess_settings se)) 1 = Inr buf"
    by blast
  show ?thesis
    using assms(1-5) d by (simp add: onmessage_def Let_def)
qed

lemma duration_nonneg: "0 \<le> duration buf"
  by (simp add: duration_def)


lemma run_append: "run (evs @ evs') s = run evs' (run evs s)"
  by (induction evs arbitrary: s) simp_all

lemma arrivals_Cons:
  "arrivals c sid ((t, msg) # tms) = [ClockReads c t, TransportMessage sid msg] @ arrivals c sid tms"
  by (simp add: arrivals_def)

lemma back_to_back_Cons:
  "back_to_back offset (d # ds) = offset # back_to_back (offset + d) ds"
proof -
  have "[0 ..< length (d # ds)] = 0 # map Suc [0 ..< length ds]"
    by (simp add: upt_conv_Cons map_Suc_upt del: upt_Suc)
  then show ?thesis
    by (simp add: back_to_back_def comp_def add.assoc del: upt_Suc)
qed

lemma start_times_no_wait:
  "(\<forall>k < length tds. fst (tds ! k) \<le> clock + sum_list (take k (map snd tds)))
   \<Longrightarrow> start_times clock tds = back_to_back clock (map snd tds)"
proof (induction tds arbitrary: clock)
  case Nil
  then show ?case by (simp add: back_to_back_def)
next
  case (Cons td tds)
  obtain t d where td: "td = (t, d)" by (cases td)
  from Cons.prems have "fst ((td # tds) ! 0) \<le> clock + sum_list (take 0 (map snd (td # tds)))"
    by blast
  then have t: "max clock t = clock" using td by simp
  have "\<forall>k < length tds. fst (tds ! k) \<le> (clock + d) + sum_list (take k (map snd tds))"
  proof (intro allI impI)
    fix k assume "k < length tds"
    then have "fst ((td # tds) ! Suc k) \<le> clock + sum_list (take (Suc k) (map snd (td # tds)))"
      using Cons.prems by (metis Suc_less_eq length_Cons)
    then show "fst (tds ! k) \<le> (clock + d) + sum_list (take k (map snd tds))"
      using td by simp
  qed
  from Cons.IH [OF this] show ?case
    using td t by (simp add: back_to_back_Cons)
qed

lemma start_times_back_to_back:
  assumes "\<forall>k. 0 < k \<and> k < length tds \<longrightarrow>
             fst (tds ! k) \<le> max clock (fst (hd tds)) + sum_list (take k (map snd tds))"
  shows "start_times clock tds = back_to_back (max clock (fst (hd tds))) (map snd tds)"
proof (cases tds)
  case Nil
  then show ?thesis by (simp add: back_to_back_def)
next
  case (Cons td rest)
  obtain t d where td: "td = (t, d)" by (cases td)
  have "\<forall>k < length rest. fst (rest ! k) \<le> (max clock t + d) + sum_list (take k (map snd rest))"
  proof (intro allI impI)
    fix k assume "k < length rest"
    then have "0 < Suc k \<and> Suc k < length tds" using Cons by simp
    then have "fst (tds ! Suc k) \<le> max clock (fst (hd tds)) + sum_list (take (Suc k) (map snd tds))"
      using assms by blast
    then show "fst (rest ! k) \<le> (max clock t + d) + sum_list (take k (map snd rest))"
      using Cons td by simp
  qed
  from start_times_no_wait [OF this] show ?thesis
    using Cons td by (simp add: back_to_back_Cons)
qed

lemma start_times_length: "length (start_times clock tds) = length tds"
  by (induction tds arbitrary: clock) auto

lemma arrival_step:
  assumes "lookup (sessions s) sid = Some se" and "audioContextRef s = Some c"
    and "c < length (contexts s)" and "ctx_state (contexts s ! c) \<noteq> Closed"
    and "sess_outputCtx se = c"
    and "decoded_audio (outputSampleRate (sess_settings se)) msg = Some buf"
  shows "run [ClockReads c t, TransportMessage sid msg] s =
           s\<lparr> contexts := (contexts s)[c := (contexts s ! c)\<lparr> currentTime := t \<rparr>],
              scheduled := scheduled s @
                [\<lparr> src_ctx = c, src_buffer = buf, src_when = max (nextStartTimeRef s) t \<rparr>],
              nextStartTimeRef := max (nextStartTimeRef s) t + duration buf,
              sourcesRef := insert (length (scheduled s)) (sourcesRef s) \<rparr>"
proof -
  let ?s1 = "clock_reads c t s"
  have s1: "?s1 = s\<lparr> contexts := (contexts s)[c := (contexts s ! c)\<lparr> currentTime := t \<rparr>] \<rparr>"
    using assms(3) by (simp add: clock_reads_def lookup_def)
  have "onmessage sid msg ?s1 =
           (None, ?s1\<lparr> scheduled := scheduled ?s1 @
                        [\<lparr> src_ctx = c, src_buffer = buf,
                           src_when = max (nextStartTimeRef ?s1)
                                          (currentTime ((contexts s ! c)\<lparr> currentTime := t \<rparr>)) \<rparr>],
                      nextStartTimeRef := max (nextStartTimeRef ?s1)
                             (currentTime ((contexts s ! c)\<lparr> currentTime := t \<rparr>)) + duration buf,
                      sourcesRef := insert (length (scheduled ?s1)) (sourcesRef ?s1) \<rparr>)"
    using assms by (intro onmessage_schedules [where se = se]) (simp_all add: s1 lookup_def)
  then show ?thesis
    by (simp add: step_def s1)
qed


lemma run_arrivals:
  assumes "lookup (sessions s) sid = Some se" and "audioContextRef s = Some c"
    and "c < length (contexts s)" and "ctx_state (contexts s ! c) \<noteq> Closed"
    and "sess_outputCtx se = c"
    and "map (decoded_audio (outputSampleRate (sess_settings se))) (map snd tms) = map Some bufs"
  shows "scheduled (run (arrivals c sid tms) s) =
           scheduled s @
           map (\<lambda>(w, b). \<lparr> src_ctx = c, src_buffer = b, src_when = w \<rparr>)
             (zip (start_times (nextStartTimeRef s) (zip (map fst tms) (map duration bufs))) bufs)
         \<and> nextStartTimeRef s \<le> nextStartTimeRef (run (arrivals c sid tms) s)"
  using assms
proof (induction tms arbitrary: s bufs)
  case Nil
  then show ?case by (simp add: arrivals_def)
next
  case (Cons tm tms)
  obtain t msg where tm: "tm = (t, msg)" by (cases tm)
  from Cons.prems(6) obtain buf rest where bufs: "bufs = buf # rest"
    and buf: "decoded_audio (outputSampleRate (sess_settings se)) msg = Some buf"
    and rest: "map (decoded_audio (outputSampleRate (sess_settings se))) (map snd tms) = map Some rest"
    using tm by (cases bufs) auto
  let ?s1 = "run [ClockReads c t, TransportMessage sid msg] s"
  have s1: "?s1 = s\<lparr> contexts := (contexts s)[c := (contexts s ! c)\<lparr> currentTime := t \<rparr>],
              scheduled := scheduled s @
                [\<lparr> src_ctx = c, src_buffer = buf, src_when = max (nextStartTimeRef s) t \<rparr>],
              nextStartTimeRef := max (nextStartTimeRef s) t + duration buf,
              sourcesRef := insert (length (scheduled s)) (sourcesRef s) \<rparr>"
    by (rule arrival_step [OF Cons.prems(1-5) buf])
  have p: "lookup (sessions ?s1) sid = Some se" "audioContextRef ?s1 = Some c"
    "c < length (contexts ?s1)" "ctx_state (contexts ?s1 ! c) \<noteq> Closed"
    using Cons.prems(1-4) unfolding s1 by (simp_all add: lookup_def)
  note ih = Cons.IH [OF p Cons.prems(5) rest]
  have run: "run (arrivals c sid (tm # tms)) s = run (arrivals c sid tms) ?s1"
    unfolding tm arrivals_Cons run_append ..
  have ns: "nextStartTimeRef ?s1 = max (nextStartTimeRef s) t + duration buf"
    and sc: "scheduled ?s1 = scheduled s @
                [\<lparr> src_ctx = c, src_buffer = buf, src_when = max (nextStartTimeRef s) t \<rparr>]"
    unfolding s1 by simp_all
  have "nextStartTimeRef s \<le> nextStartTimeRef ?s1"
    unfolding ns using duration_nonneg [of buf] by linarith
  with ih show ?case
    unfolding run ns sc by (simp add: tm bufs)
qed

text \<open>
  C1. Messages of one session are handled one after the other, each handler running to
  its end before the next, with the output context of the session in the ref and not
  closed, and each message carrying a payload that decodes. "No pauses" is read as: every
  message after the first arrives while the output clock has not passed the end of the
  buffers scheduled so far. Then buffer \<open>k\<close> is started at the offset (the larger of
  the schedule clock and the output clock at the first message) plus the durations of the
  buffers before it. The starts are those of the recurrence \<open>start_times\<close> (start at
  the maximum of schedule clock and output clock, then advance the schedule clock by the
  duration), the buffers are started in the order of arrival after whatever was
  scheduled before, and the schedule clock does not decrease. Times are real numbers.
\<close>

theorem gapless_schedule:
  assumes "lookup (sessions s) sid = Some se" and "audioContextRef s = Some c"
    and "lookup (contexts s) c = Some cx" and "ctx_state cx \<noteq> Closed"
    and "sess_outputCtx se = c"
    and "map (decoded_audio (outputSampleRate (sess_settings se))) (map snd tms) = map Some bufs"
    and "\<forall>k. 0 < k \<and> k < length tms \<longrightarrow>
           fst (tms ! k) \<le> max (nextStartTimeRef s) (fst (hd tms))
                               + sum_list (take k (map duration bufs))"
  shows "map src_when (drop (length (scheduled s)) (scheduled (run (arrivals c sid tms) s)))
           = back_to_back (max (nextStartTimeRef s) (fst (hd tms))) (map duration bufs)
       \<and> map src_when (drop (length (scheduled s)) (scheduled (run (arrivals c sid tms) s)))
           = start_times (nextStartTimeRef s) (zip (map fst tms) (map duration bufs))
       \<and> map src_buffer (drop (length (scheduled s)) (scheduled (run (arrivals c sid tms) s)))
           = bufs
       \<and> take (length (scheduled s)) (scheduled (run (arrivals c sid tms) s)) = scheduled s
       \<and> nextStartTimeRef s \<le> nextStartTimeRef (run (arrivals c sid tms) s)"
proof -
  have c: "c < length (contexts s)" "ctx_state (contexts s ! c) \<noteq> Closed"
    using assms(3,4) by (auto simp add: lookup_def split: if_splits)
  let ?tds = "zip (map fst tms) (map duration bufs)"
  have len: "length bufs = length tms"
    using assms(6) by (metis length_map)
  have ra: "scheduled (run (arrivals c sid tms) s) =
           scheduled s @
           map (\<lambda>(w, b). \<lparr> src_ctx = c, src_buffer = b, src_when = w \<rparr>)
             (zip (start_times (nextStartTimeRef s) ?tds) bufs)"
    and mono: "nextStartTimeRef s \<le> nextStartTimeRef (run (arrivals c sid tms) s)"
    using run_arrivals [OF assms(1,2) c assms(5,6)] by blast+
  have l2: "length (start_times (nextStartTimeRef s) ?tds) = length bufs"
    by (simp add: start_times_length len)
  have whens: "map src_when (drop (length (scheduled s)) (scheduled (run (arrivals c sid tms) s)))
        = start_times (nextStartTimeRef s) ?tds"
    unfolding ra using l2 by (simp add: comp_def case_prod_beta map_fst_zip [unfolded comp_def])
  have bufs: "map src_buffer (drop (length (scheduled s)) (scheduled (run (arrivals c sid tms) s)))
        = bufs"
    unfolding ra using l2 by (simp add: comp_def case_prod_beta map_snd_zip [unfolded comp_def])
  have tds: "length ?tds = length tms" "map snd ?tds = map duration bufs"
    "tms \<noteq> [] \<Longrightarrow> fst (hd ?tds) = fst (hd tms)"
    "\<And>k. k < length tms \<Longrightarrow> fst (?tds ! k) = fst (tms ! k)"
  proof -
    show "length ?tds = length tms" using len by simp
    show "map snd ?tds = map duration bufs" using len by simp
    show "fst (hd ?tds) = fst (hd tms)" if "tms \<noteq> []"
      using that len by (cases tms; cases bufs) simp_all
    show "fst (?tds ! k) = fst (tms ! k)" if "k < length tms" for k
      using that len by simp
  qed
  have b2b: "start_times (nextStartTimeRef s) ?tds
        = back_to_back (max (nextStartTimeRef s) (fst (hd tms))) (map duration bufs)"
  proof (cases "tms = []")
    case True
    then show ?thesis using len by (simp add: back_to_back_def)
  next
    case False
    have "start_times (nextStartTimeRef s) ?tds
          = back_to_back (max (nextStartTimeRef s) (fst (hd ?tds))) (map snd ?tds)"
      by (rule start_times_back_to_back) (use assms(7) tds False in auto)
    then show ?thesis using tds False by simp
  qed
  show ?thesis
    using whens bufs mono b2b by (simp add: ra)
qed


lemmas codec_defs = decoded_audio_def audio_message_def inline_audio_def decode_def atob_def
  strip_padding_def ascii_whitespace_def b64_index_def b64_alphabet_def decodeAudioData_def
  int16_view_def int16_of_bytes_def channel_data_def Let_def

theorem gapless_schedule_witness:
  "let s = run [ClickStartStop, MicGranted 0, TransportOpen 0] initial_state;
       tms = [(1 / 4, audio_message ''AAAAAA==''), (1 / 4, audio_message ''AAA=''),
              (1 / 4 + 1 / 24000, audio_message ''AAAAAAAA'')]
   in map src_when (scheduled (run (arrivals 1 0 tms) s))
        = [1 / 4, 1 / 4 + 2 / 24000, 1 / 4 + 3 / 24000]
      \<and> map (duration \<circ> src_buffer) (scheduled (run (arrivals 1 0 tms) s))
        = [2 / 24000, 1 / 24000, 3 / 24000]"
proof -
  define s where "s = run [ClickStartStop, MicGranted 0, TransportOpen 0] initial_state"
  define tms where "tms = [(1 / 4 :: real, audio_message ''AAAAAA==''), (1 / 4, audio_message ''AAA=''),
              (1 / 4 + 1 / 24000, audio_message ''AAAAAAAA'')]"
  define se where "se = \<lparr> promise = Pending, conn_closed = False, waiting = [],
               sess_inputCtx = 0, sess_outputCtx = 1, sess_stream = 0,
               sess_settings = \<lparr> inputSampleRate = 16000, outputSampleRate = 24000,
                                  bufferSize = 4096 \<rparr> \<rparr>"
  define cx where "cx = \<lparr> ctx_state = Running, sampleRate = 24000, currentTime = 0 \<rparr>"
  define bufs where "bufs = [\<lparr> channels = [[0 :: real, 0]], frames = 2, buf_rate = 24000 \<rparr>,
               \<lparr> channels = [[0]], frames = 1, buf_rate = 24000 \<rparr>,
               \<lparr> channels = [[0, 0, 0]], frames = 3, buf_rate = 24000 \<rparr>]"
  have h1: "lookup (sessions s) 0 = Some se" by (simp add: s_def se_def handler_defs)
  have h2: "audioContextRef s = Some 1" by (simp add: s_def handler_defs)
  have h3: "lookup (contexts s) 1 = Some cx" by (simp add: s_def cx_def handler_defs)
  have h4: "ctx_state cx \<noteq> Closed" by (simp add: cx_def)
  have h5: "sess_outputCtx se = 1" by (simp add: se_def)
  have h6: "map (decoded_audio (outputSampleRate (sess_settings se))) (map snd tms) = map Some bufs"
    by (simp add: se_def tms_def bufs_def codec_defs)
  have n0: "nextStartTimeRef s = 0" and s0: "scheduled s = []"
    by (simp_all add: s_def handler_defs)
  have h7: "\<forall>k. 0 < k \<and> k < length tms \<longrightarrow>
           fst (tms ! k) \<le> max (nextStartTimeRef s) (fst (hd tms))
                               + sum_list (take k (map duration bufs))"
  proof (intro allI impI)
    fix k :: nat assume "0 < k \<and> k < length tms"
    then consider "k = 1" | "k = 2" by (fastforce simp add: tms_def)
    then show "fst (tms ! k) \<le> max (nextStartTimeRef s) (fst (hd tms))
                               + sum_list (take k (map duration bufs))"
      by cases (simp_all add: n0 tms_def bufs_def duration_def numeral_2_eq_2)
  qed
  have "map src_when (drop (length (scheduled s)) (scheduled (run (arrivals 1 0 tms) s)))
           = back_to_back (max (nextStartTimeRef s) (fst (hd tms))) (map duration bufs)
       \<and> map src_buffer (drop (length (scheduled s)) (scheduled (run (arrivals 1 0 tms) s)))
           = bufs"
    using gapless_schedule [OF h1 h2 h3 h4 h5 h6 h7] by blast
  then have "map src_when (scheduled (run (arrivals 1 0 tms) s))
               = [1 / 4, 1 / 4 + 2 / 24000, 1 / 4 + 3 / 24000]"
    and "map src_buffer (scheduled (run (arrivals 1 0 tms) s)) = bufs"
    unfolding s0 n0 by (simp_all add: tms_def bufs_def back_to_back_Cons back_to_back_def duration_def)
  then have "map src_when (scheduled (run (arrivals 1 0 tms) s))
               = [1 / 4, 1 / 4 + 2 / 24000, 1 / 4 + 3 / 24000]
      \<and> map (duration \<circ> src_buffer) (scheduled (run (arrivals 1 0 tms) s))
               = [2 / 24000, 1 / 24000, 3 / 24000]"
    by (simp add: bufs_def duration_def flip: map_map)
  then show ?thesis
    unfolding s_def tms_def Let_def .
qed


lemma second_session_ready:
  fixes s :: live_state
  defines "s3 \<equiv> run [MicGranted (length (attempts s)), TransportOpen (length (sessions s))]
                    (startLiveSession s)"
  shows "\<exists>se. lookup (sessions s3) (length (sessions s)) = Some se
              \<and> sess_outputCtx se = Suc (length (contexts s))
              \<and> sess_settings se = settings s"
    and "audioContextRef s3 = Some (Suc (length (contexts s)))"
    and "Suc (length (contexts s)) < length (contexts s3)"
    and "ctx_state (contexts s3 ! Suc (length (contexts s))) \<noteq> Closed"
    and "nextStartTimeRef s3 = nextStartTimeRef s"
    and "scheduled s3 = scheduled s"
    and "sourcesRef s3 = sourcesRef s"
  unfolding s3_def
  by (simp_all add: step_def startLiveSession_def getUserMedia_resolved_def transport_open_def
        onopen_def console_write_def lookup_def new_AudioContext_def Let_def nth_append)

text \<open>
  C7, as the code has it. \<^verbatim>\<open>startLiveSession\<close> enters \<open>CONNECTING\<close> and leaves the
  schedule clock, the set of active sources and the scheduled sources as they are:
  nothing in the component resets them. The first buffer of the new session is therefore
  started at the larger of the schedule clock left by the previous session and the
  clock of the new output context.
\<close>

theorem start_keeps_schedule_clock:
  "nextStartTimeRef (startLiveSession s) = nextStartTimeRef s
   \<and> sourcesRef (startLiveSession s) = sourcesRef s
   \<and> scheduled (startLiveSession s) = scheduled s
   \<and> connectionState (startLiveSession s) = CONNECTING
   \<and> (decoded_audio (outputSampleRate (settings s)) msg = Some buf \<longrightarrow>
        scheduled (run [MicGranted (length (attempts s)), TransportOpen (length (sessions s)),
                        ClockReads (Suc (length (contexts s))) t,
                        TransportMessage (length (sessions s)) msg] (startLiveSession s))
          = scheduled s @ [\<lparr> src_ctx = Suc (length (contexts s)), src_buffer = buf,
                              src_when = max (nextStartTimeRef s) t \<rparr>])"
proof -
  let ?s3 = "run [MicGranted (length (attempts s)), TransportOpen (length (sessions s))]
               (startLiveSession s)"
  let ?c = "Suc (length (contexts s))"
  let ?sid = "length (sessions s)"
  have first: "nextStartTimeRef (startLiveSession s) = nextStartTimeRef s
     \<and> sourcesRef (startLiveSession s) = sourcesRef s
     \<and> scheduled (startLiveSession s) = scheduled s
     \<and> connectionState (startLiveSession s) = CONNECTING"
    by (simp add: startLiveSession_def Let_def)
  have second: "scheduled (run [MicGranted (length (attempts s)), TransportOpen ?sid,
                        ClockReads ?c t, TransportMessage ?sid msg] (startLiveSession s))
          = scheduled s @ [\<lparr> src_ctx = ?c, src_buffer = buf,
                              src_when = max (nextStartTimeRef s) t \<rparr>]"
    if dec: "decoded_audio (outputSampleRate (settings s)) msg = Some buf"
  proof -
    from second_session_ready(1) [of s] obtain se where
      se: "lookup (sessions ?s3) ?sid = Some se" "sess_outputCtx se = ?c"
          "sess_settings se = settings s"
      by blast
    have dec': "decoded_audio (outputSampleRate (sess_settings se)) msg = Some buf"
      using dec se(3) by simp
    have split: "run [MicGranted (length (attempts s)), TransportOpen ?sid,
                      ClockReads ?c t, TransportMessage ?sid msg] (startLiveSession s)
                 = run [ClockReads ?c t, TransportMessage ?sid msg] ?s3"
      by simp
    show ?thesis
      unfolding split
      by (subst arrival_step [OF se(1) second_session_ready(2,3,4) se(2) dec'])
         (simp add: second_session_ready(5,6) del: run.simps)
  qed
  from first second show ?thesis by blast
qed

theorem start_keeps_schedule_clock_witness:
  "let s = run [ClickStartStop, MicGranted 0, TransportOpen 0, ClockReads 1 (1 / 4),
                TransportMessage 0 (audio_message ''AAAAAA==''), ClickStartStop] initial_state
   in nextStartTimeRef s = 1 / 4 + 2 / 24000
      \<and> connectionState s = DISCONNECTED
      \<and> map src_when
           (scheduled (run [MicGranted 1, TransportOpen 1, ClockReads 3 0,
                            TransportMessage 1 (audio_message ''AAA='')] (startLiveSession s)))
         = [1 / 4, 1 / 4 + 2 / 24000]"
proof -
  define s where "s = run [ClickStartStop, MicGranted 0, TransportOpen 0, ClockReads 1 (1 / 4),
                TransportMessage 0 (audio_message ''AAAAAA==''), ClickStartStop] initial_state"
  have facts: "nextStartTimeRef s = 1 / 4 + 2 / 24000" "connectionState s = DISCONNECTED"
    "length (attempts s) = 1" "length (sessions s) = 1" "length (contexts s) = 2"
    "map src_when (scheduled s) = [1 / 4]" "outputSampleRate (settings s) = 24000"
    by (simp_all add: s_def handler_defs codec_defs duration_def)
  have dec: "decoded_audio (outputSampleRate (settings s)) (audio_message ''AAA='')
             = Some \<lparr> channels = [[0]], frames = 1, buf_rate = 24000 \<rparr>"
    unfolding facts by (simp add: codec_defs)
  have "scheduled (run [MicGranted (length (attempts s)), TransportOpen (length (sessions s)),
                        ClockReads (Suc (length (contexts s))) 0,
                        TransportMessage (length (sessions s)) (audio_message ''AAA='')]
                    (startLiveSession s))
          = scheduled s @ [\<lparr> src_ctx = Suc (length (contexts s)),
                              src_buffer = \<lparr> channels = [[0]], frames = 1, buf_rate = 24000 \<rparr>,
                              src_when = max (nextStartTimeRef s) 0 \<rparr>]"
    using start_keeps_schedule_clock [of s "audio_message ''AAA=''" _ 0] dec by blast
  then have "map src_when
           (scheduled (run [MicGranted 1, TransportOpen 1, ClockReads 3 0,
                            TransportMessage 1 (audio_message ''AAA='')] (startLiveSession s)))
         = [1 / 4, 1 / 4 + 2 / 24000]"
    unfolding facts by (simp add: facts numeral_3_eq_3 del: run.simps)
  with facts(1,2) show ?thesis
    unfolding s_def Let_def by blast
qed

text \<open>
  A first session schedules one buffer at 0.25 s and is stopped; in the second session the
  new output clock reads 0, and its first buffer is started at the first session's
  schedule clock; the first session's source is still in the set of active sources.
\<close>

theorem stale_schedule_clock_counterexample:
  "connectionState (run two_sessions initial_state) = CONNECTED
   \<and> audioContextRef (run two_sessions initial_state) = Some 3
   \<and> map currentTime (contexts (run two_sessions initial_state)) = [0, 1 / 4, 0, 0]
   \<and> map src_ctx (scheduled (run two_sessions initial_state)) = [1, 3]
   \<and> map src_when (scheduled (run two_sessions initial_state)) = [1 / 4, 1 / 4 + 2 / 24000]
   \<and> sourcesRef (run two_sessions initial_state) = {0, 1}"
  by (simp add: two_sessions_def handler_defs codec_defs duration_def insert_commute)

lemma sends_after_open_snoc:
  assumes "sends_after_open w" and "\<And>sid pcmBlob. ev = Sent sid pcmBlob \<Longrightarrow> Opened sid \<in> set w"
  shows "sends_after_open (w @ [ev])"
  unfolding sends_after_open_def
proof (intro allI impI)
  fix i sid pcmBlob
  assume i: "i < length (w @ [ev])" and at: "(w @ [ev]) ! i = Sent sid pcmBlob"
  show "Opened sid \<in> set (take i (w @ [ev]))"
  proof (cases "i < length w")
    case True
    with at have "w ! i = Sent sid pcmBlob" by (simp add: nth_append)
    with assms(1) True have "Opened sid \<in> set (take i w)"
      unfolding sends_after_open_def by blast
    with True show ?thesis by simp
  next
    case False
    with i have "i = length w" by simp
    with at assms(2) show ?thesis by simp
  qed
qed

lemma wired_snoc_other:
  assumes "wired_after_open w ps qs" and "\<And>sid pcmBlob. ev \<noteq> Sent sid pcmBlob"
  shows "wired_after_open (w @ [ev]) ps qs"
  using assms sends_after_open_snoc [of w ev]
  unfolding wired_after_open_def by auto

lemma wired_snoc_sent:
  assumes "wired_after_open w ps qs" and "Opened sid \<in> set w"
  shows "wired_after_open (w @ [Sent sid pcmBlob]) ps qs"
  using assms sends_after_open_snoc [of w "Sent sid pcmBlob"]
  unfolding wired_after_open_def by auto

lemma wired_new_processor:
  assumes "wired_after_open w ps qs" and "Opened sid \<in> set w"
  shows "wired_after_open w (ps @ [sid]) qs"
  using assms unfolding wired_after_open_def by auto

lemma wired_new_session:
  assumes "wired_after_open w ps qs"
  shows "wired_after_open w ps (qs @ [[]])"
  using assms unfolding wired_after_open_def by (auto simp add: nth_append)

lemma wired_enqueue:
  assumes "wired_after_open w ps qs" and "sid < length qs"
    and "\<And>pcmBlob. cb = SendRealtimeInput pcmBlob \<Longrightarrow> Opened sid \<in> set w"
  shows "wired_after_open w ps (qs[sid := qs ! sid @ [cb]])"
proof -
  have "Opened sid' \<in> set w"
    if "sid' < length qs" "SendRealtimeInput pcmBlob \<in> set (qs[sid := qs ! sid @ [cb]] ! sid')"
    for sid' pcmBlob
  proof (cases "sid' = sid")
    case True
    with that assms(2) have "SendRealtimeInput pcmBlob \<in> set (qs ! sid) \<or> cb = SendRealtimeInput pcmBlob"
      by auto
    with assms True that(1) show ?thesis unfolding wired_after_open_def by blast
  next
    case False
    with that have "SendRealtimeInput pcmBlob \<in> set (qs ! sid')" by simp
    with assms(1) that(1) show ?thesis unfolding wired_after_open_def by blast
  qed
  with assms(1) show ?thesis unfolding wired_after_open_def by simp
qed

lemma wired_clear:
  assumes "wired_after_open w ps qs"
  shows "wired_after_open w ps (qs[sid := []])"
proof -
  have "Opened sid' \<in> set w"
    if "sid' < length qs" "SendRealtimeInput pcmBlob \<in> set (qs[sid := []] ! sid')"
    for sid' pcmBlob
  proof (cases "sid' = sid")
    case True
    with that show ?thesis by simp
  next
    case False
    with that have "SendRealtimeInput pcmBlob \<in> set (qs ! sid')" by simp
    with assms that(1) show ?thesis unfolding wired_after_open_def by blast
  qed
  with assms show ?thesis unfolding wired_after_open_def by simp
qed

lemma wired_processor_opened:
  assumes "wired_after_open w ps qs" and "sid \<in> set ps"
  shows "Opened sid \<in> set w"
  using assms unfolding wired_after_open_def by blast

lemma wired_queue_opened:
  assumes "wired_after_open w ps qs" and "sid < length qs"
    and "SendRealtimeInput pcmBlob \<in> set (qs ! sid)"
  shows "Opened sid \<in> set w"
  using assms unfolding wired_after_open_def by blast


lemma capture_inv_cong:
  assumes "wire s' = wire s"
    and "map proc_session (processors s') = map proc_session (processors s)"
    and "map waiting (sessions s') = map waiting (sessions s)"
  shows "capture_inv s' = capture_inv s"
  using assms by (simp add: capture_inv_def)

lemma map_update_same:
  assumes "i < length xs" and "f y = f (xs ! i)"
  shows "map f (xs[i := y]) = map f xs"
  using assms by (simp add: map_update list_update_same_conv)

lemma lookup_SomeD: "lookup xs i = Some x \<Longrightarrow> i < length xs \<and> xs ! i = x"
  by (simp add: lookup_def split: if_splits)

lemma run_callback_inv:
  assumes "capture_inv s"
    and "\<And>pcmBlob. cb = SendRealtimeInput pcmBlob \<Longrightarrow> Opened sid \<in> set (wire s)"
  shows "capture_inv (run_callback sid cb s)"
proof (cases cb)
  case (SendRealtimeInput pcmBlob)
  with assms show ?thesis
    by (simp add: run_callback_def capture_inv_def wired_snoc_sent)
next
  case CloseSession
  show ?thesis
  proof (cases "lookup (sessions s) sid")
    case None
    with CloseSession assms(1) show ?thesis
      by (simp add: run_callback_def session_close_def)
  next
    case (Some se)
    from lookup_SomeD [OF Some] have i: "sid < length (sessions s)" "sessions s ! sid = se"
      by simp_all
    have m: "map waiting ((sessions s)[sid := se\<lparr> conn_closed := True \<rparr>]) = map waiting (sessions s)"
      by (rule map_update_same) (use i in simp_all)
    from assms(1) have "wired_after_open (wire s @ [CloseCalled sid])
        (map proc_session (processors s)) (map waiting (sessions s))"
      unfolding capture_inv_def by (rule wired_snoc_other) simp
    with CloseSession Some assms(1) m show ?thesis
      by (simp add: run_callback_def session_close_def capture_inv_def console_write_def)
  qed
qed

lemma run_callback_wire: "set (wire s) \<subseteq> set (wire (run_callback sid cb s))"
  by (auto simp add: run_callback_def session_close_def console_write_def
        split: then_callback.splits option.splits sum.splits if_splits)

lemma run_callbacks_inv:
  assumes "capture_inv s"
    and "\<And>pcmBlob. SendRealtimeInput pcmBlob \<in> set cbs \<Longrightarrow> Opened sid \<in> set (wire s)"
  shows "capture_inv (run_callbacks sid cbs s)"
  using assms
proof (induction cbs arbitrary: s)
  case Nil
  then show ?case by simp
next
  case (Cons cb cbs)
  have 0: "Opened sid \<in> set (wire s)" if "cb = SendRealtimeInput pcmBlob" for pcmBlob
    using Cons.prems(2) [of pcmBlob] that by simp
  have 1: "capture_inv (run_callback sid cb s)"
    using Cons.prems(1) 0 by (rule run_callback_inv)
  have 2: "Opened sid \<in> set (wire (run_callback sid cb s))"
    if "SendRealtimeInput pcmBlob \<in> set cbs" for pcmBlob
    using Cons.prems(2) [of pcmBlob] that run_callback_wire [of s sid cb] by auto
  from Cons.IH [OF 1 2] show ?case by simp
qed

lemma session_then_inv:
  assumes "capture_inv s"
    and "\<And>pcmBlob. cb = SendRealtimeInput pcmBlob \<Longrightarrow> Opened sid \<in> set (wire s)"
  shows "capture_inv (session_then sid cb s)"
proof (cases "lookup (sessions s) sid")
  case None
  with assms(1) show ?thesis by (simp add: session_then_def)
next
  case (Some se)
  from lookup_SomeD [OF Some] have i: "sid < length (sessions s)" "sessions s ! sid = se"
    by simp_all
  show ?thesis
  proof (cases "promise se")
    case Pending
    have m: "map waiting ((sessions s)[sid := se\<lparr> waiting := waiting se @ [cb] \<rparr>])
             = (map waiting (sessions s))[sid := map waiting (sessions s) ! sid @ [cb]]"
      using i by (simp add: map_update)
    have "wired_after_open (wire s) (map proc_session (processors s))
            ((map waiting (sessions s))[sid := map waiting (sessions s) ! sid @ [cb]])"
      by (rule wired_enqueue) (use assms i in \<open>simp_all add: capture_inv_def\<close>)
    with Some Pending m show ?thesis
      by (simp add: session_then_def capture_inv_def)
  next
    case Fulfilled
    with Some run_callback_inv [OF assms] show ?thesis by (simp add: session_then_def)
  next
    case Rejected
    with Some assms(1) show ?thesis by (simp add: session_then_def)
  qed
qed

lemma connect_fulfilled_inv:
  assumes "capture_inv s"
  shows "capture_inv (connect_fulfilled sid s)"
proof (cases "lookup (sessions s) sid")
  case None
  with assms show ?thesis by (simp add: connect_fulfilled_def)
next
  case (Some se)
  from lookup_SomeD [OF Some] have i: "sid < length (sessions s)" "sessions s ! sid = se"
    by simp_all
  show ?thesis
  proof (cases "promise se = Pending")
    case False
    with Some assms show ?thesis by (simp add: connect_fulfilled_def)
  next
    case True
    let ?s1 = "s\<lparr> sessions := (sessions s)[sid := se\<lparr> promise := Fulfilled, waiting := [] \<rparr>] \<rparr>"
    have m: "map waiting ((sessions s)[sid := se\<lparr> promise := Fulfilled, waiting := [] \<rparr>])
             = (map waiting (sessions s))[sid := []]"
      by (simp add: map_update)
    have 1: "capture_inv ?s1"
      using assms wired_clear [of "wire s" "map proc_session (processors s)"
                                  "map waiting (sessions s)" sid]
      by (simp add: capture_inv_def m)
    have 2: "Opened sid \<in> set (wire ?s1)" if "SendRealtimeInput pcmBlob \<in> set (waiting se)"
      for pcmBlob
      using wired_queue_opened [of "wire s" "map proc_session (processors s)"
                                   "map waiting (sessions s)" sid pcmBlob] assms i that
      by (simp add: capture_inv_def)
    from run_callbacks_inv [OF 1 2] Some True show ?thesis
      by (simp add: connect_fulfilled_def)
  qed
qed

lemma connect_rejected_inv:
  assumes "capture_inv s"
  shows "capture_inv (connect_rejected sid s)"
  using assms wired_clear [of "wire s" "map proc_session (processors s)"
                              "map waiting (sessions s)" sid]
  by (simp add: connect_rejected_def capture_inv_def map_update split: option.splits)

lemma stop_processor_sessions:
  "map proc_session (processors (stop_processor s)) = map proc_session (processors s)"
proof (cases "scriptProcessorRef s")
  case None
  then show ?thesis by (simp add: stop_processor_def)
next
  case (Some p)
  show ?thesis
  proof (cases "lookup (processors s) p")
    case None
    with Some show ?thesis by (simp add: stop_processor_def disconnect_processor_def)
  next
    case (Some pr)
    from lookup_SomeD [OF Some] have "p < length (processors s)" "processors s ! p = pr"
      by simp_all
    then have "map proc_session ((processors s)[p := pr\<lparr> proc_connected := False \<rparr>])
               = map proc_session (processors s)"
      by (intro map_update_same) simp_all
    with Some \<open>scriptProcessorRef s = Some p\<close> show ?thesis
      by (simp add: stop_processor_def disconnect_processor_def)
  qed
qed

lemma stopLiveSession_inv:
  assumes "capture_inv s"
  shows "capture_inv (stopLiveSession s)"
proof -
  have 1: "capture_inv (stop_session s)"
    using session_then_inv [OF assms, of CloseSession] assms
    by (simp add: stop_session_def split: option.splits)
  have "capture_inv (stopLiveSession s) = capture_inv (stop_session s)"
    by (rule capture_inv_cong)
       (simp_all add: stopLiveSession_def Let_def stop_processor_sessions)
  with 1 show ?thesis by simp
qed

lemma transport_open_inv:
  assumes "capture_inv s"
  shows "capture_inv (transport_open sid s)"
proof (cases "sid < length (sessions s)")
  case False
  with assms show ?thesis by (simp add: transport_open_def)
next
  case True
  from assms have 1: "wired_after_open (wire s @ [Opened sid])
        (map proc_session (processors s)) (map waiting (sessions s))"
    unfolding capture_inv_def by (rule wired_snoc_other) simp
  then have 2: "wired_after_open (wire s @ [Opened sid])
        (map proc_session (processors s) @ [sid]) (map waiting (sessions s))"
    by (rule wired_new_processor) simp
  from True 1 2 show ?thesis
    by (simp add: transport_open_def onopen_def lookup_def capture_inv_def console_write_def
          Let_def)
qed

lemma onaudioprocess_inv:
  assumes "capture_inv s"
  shows "capture_inv (onaudioprocess p inputData s)"
proof (cases "lookup (processors s) p")
  case None
  with assms show ?thesis by (simp add: onaudioprocess_def)
next
  case (Some pr)
  from lookup_SomeD [OF Some] have "proc_session pr \<in> set (map proc_session (processors s))"
    by (metis nth_mem image_eqI set_map)
  with assms have "Opened (proc_session pr) \<in> set (wire s)"
    unfolding capture_inv_def by (rule wired_processor_opened)
  with Some session_then_inv [OF assms, of "SendRealtimeInput (createBlob inputData)" "proc_session pr"]
  show ?thesis by (simp add: onaudioprocess_def Let_def)
qed

lemma onmessage_inv:
  assumes "capture_inv s"
  shows "capture_inv (snd (onmessage sid msg s))"
proof -
  have "capture_inv (snd (onmessage sid msg s)) = capture_inv s"
    by (rule capture_inv_cong)
       (simp_all add: onmessage_def Let_def split: option.splits sum.splits)
  with assms show ?thesis by simp
qed

lemma transport_close_inv:
  assumes "capture_inv s"
  shows "capture_inv (transport_close sid s)"
proof (cases "lookup (sessions s) sid")
  case None
  with assms show ?thesis by (simp add: transport_close_def)
next
  case (Some se)
  from lookup_SomeD [OF Some] have i: "sid < length (sessions s)" "sessions s ! sid = se"
    by simp_all
  have m: "map waiting ((sessions s)[sid := se\<lparr> conn_closed := True \<rparr>]) = map waiting (sessions s)"
    by (rule map_update_same) (use i in simp_all)
  have "capture_inv (transport_close sid s) = capture_inv s"
    by (rule capture_inv_cong)
       (use Some m in \<open>simp_all add: transport_close_def onclose_def console_write_def\<close>)
  with assms show ?thesis by simp
qed

lemma onerror_inv:
  assumes "capture_inv s"
  shows "capture_inv (onerror sid e s)"
proof -
  let ?s3 = "(console_write ERR (err_toString e) s)
               \<lparr> error := Some (''Live Session Error: '' @ formatGeminiError e),
                 connectionState := ERROR \<rparr>"
  have "capture_inv ?s3 = capture_inv s"
    by (rule capture_inv_cong) (simp_all add: console_write_def)
  with assms have "capture_inv (stopLiveSession ?s3)"
    by (intro stopLiveSession_inv) simp
  then show ?thesis by (simp add: onerror_def Let_def)
qed

lemma getUserMedia_resolved_inv:
  assumes "capture_inv s"
  shows "capture_inv (getUserMedia_resolved a s)"
  using assms wired_new_session [of "wire s" "map proc_session (processors s)"
                                    "map waiting (sessions s)"]
  by (simp add: getUserMedia_resolved_def capture_inv_def Let_def split: option.splits)

lemma step_inv:
  assumes "capture_inv s"
  shows "capture_inv (step ev s)"
proof (cases ev)
  case (SelectSetting key v)
  have "capture_inv (handleSettingChange key v s) = capture_inv s"
    by (rule capture_inv_cong) (simp_all add: handleSettingChange_def)
  with assms SelectSetting show ?thesis by (simp add: step_def)
next
  case ClickStartStop
  have "capture_inv (startLiveSession s) = capture_inv s"
    by (rule capture_inv_cong) (simp_all add: startLiveSession_def Let_def)
  with assms ClickStartStop stopLiveSession_inv [OF assms] show ?thesis
    by (simp add: step_def)
next
  case ClickPause
  have "capture_inv (togglePauseOutput s) = capture_inv s"
    by (rule capture_inv_cong)
       (simp_all add: togglePauseOutput_def set_context_state_def Let_def split: option.splits)
  with assms ClickPause show ?thesis by (simp add: step_def)
next
  case ClickTab
  have "capture_inv ((stopLiveSession s)\<lparr> error := None \<rparr>) = capture_inv (stopLiveSession s)"
    by (rule capture_inv_cong) simp_all
  with ClickTab stopLiveSession_inv [OF assms] show ?thesis by (simp add: step_def)
next
  case (MicGranted a)
  with getUserMedia_resolved_inv [OF assms] show ?thesis by (simp add: step_def)
next
  case (MicRefused a e)
  have "capture_inv (getUserMedia_rejected a e s) = capture_inv s"
    by (rule capture_inv_cong)
       (simp_all add: getUserMedia_rejected_def console_write_def Let_def split: option.splits)
  with assms MicRefused show ?thesis by (simp add: step_def)
next
  case (ConnectFulfilled sid)
  with connect_fulfilled_inv [OF assms] show ?thesis by (simp add: step_def)
next
  case (ConnectRejected sid)
  with connect_rejected_inv [OF assms] show ?thesis by (simp add: step_def)
next
  case (TransportOpen sid)
  with transport_open_inv [OF assms] show ?thesis by (simp add: step_def)
next
  case (TransportMessage sid msg)
  with onmessage_inv [OF assms] show ?thesis by (simp add: step_def)
next
  case (TransportClose sid)
  with transport_close_inv [OF assms] show ?thesis by (simp add: step_def)
next
  case (TransportError sid e)
  with assms onerror_inv [OF assms] show ?thesis by (simp add: step_def)
next
  case (AudioProcess p inputData)
  with onaudioprocess_inv [OF assms] show ?thesis by (simp add: step_def)
next
  case (SourceEnded source)
  have "capture_inv (source_ended source s) = capture_inv s"
    by (rule capture_inv_cong) (simp_all add: source_ended_def)
  with assms SourceEnded show ?thesis by (simp add: step_def)
next
  case (ClockReads c t)
  have "capture_inv (clock_reads c t s) = capture_inv s"
    by (rule capture_inv_cong) (simp_all add: clock_reads_def split: option.splits)
  with assms ClockReads show ?thesis by (simp add: step_def)
qed

lemma run_inv: "capture_inv s \<Longrightarrow> capture_inv (run evs s)"
  by (induction evs arbitrary: s) (simp_all add: step_inv)

lemma initial_inv: "capture_inv initial_state"
  by (simp add: capture_inv_def wired_after_open_def sends_after_open_def initial_state_def)

text \<open>
  C8. Whatever the user and the platform do, in whatever order, starting from the initial
  state: every frame handed to the transport of a session comes after the open event of
  that session, and every script processor (the only sender) belongs to a session whose
  open event has fired, because \<^verbatim>\<open>onopen\<close> is the only place that creates one.
\<close>

theorem no_send_before_open:
  "(\<forall>i < length (wire (run evs initial_state)). \<forall>sid pcmBlob.
       wire (run evs initial_state) ! i = Sent sid pcmBlob
       \<longrightarrow> Opened sid \<in> set (take i (wire (run evs initial_state))))
   \<and> (\<forall>pr \<in> set (processors (run evs initial_state)).
         Opened (proc_session pr) \<in> set (wire (run evs initial_state)))"
  using run_inv [OF initial_inv, of evs]
  unfolding capture_inv_def wired_after_open_def sends_after_open_def by simp

theorem no_send_before_open_witness:
  "let w = wire (run [ClickStartStop, MicGranted 0, AudioProcess 0 [1 / 2], TransportOpen 0,
                      AudioProcess 0 [1 / 2], ConnectFulfilled 0, AudioProcess 0 [- 1 / 2]]
                   initial_state)
   in w = [Opened 0, Sent 0 (createBlob [1 / 2]), Sent 0 (createBlob [- 1 / 2])]
      \<and> Opened 0 \<in> set (take 2 w)"
  using no_send_before_open
    [of "[ClickStartStop, MicGranted 0, AudioProcess 0 [1 / 2], TransportOpen 0,
          AudioProcess 0 [1 / 2], ConnectFulfilled 0, AudioProcess 0 [- 1 / 2]]"]
  by (simp add: handler_defs)


end
